theory Spec2Isabelle
  imports Main "HOL-Library.Word"
begin

section \<open>mini\_bash.c: a shallow embedding\<close>

text \<open>
  The shell of \<^verbatim>\<open>src/mini_bash.c\<close> is modelled function by function. A C string is
  the list of the characters before its terminating NUL. The operating system is a
  record of deterministic answers (\<open>os\<close>), the observable state of the shell process
  is a record (\<open>world\<close>), and every function that performs a system call takes the
  world and returns the updated one.
\<close>

subsection \<open>Constants of the source\<close>

definition PROMPT :: string where
  "PROMPT = ''mini-bash $ ''"

definition PROMPT_LEN :: nat where
  "PROMPT_LEN = 11"

definition INITIAL_BUF :: nat where
  "INITIAL_BUF = 256"

definition MAX_ARGS :: int where
  "MAX_ARGS = 128"

definition PATH_BUF :: nat where
  "PATH_BUF = 4096"

subsection \<open>Tokenizer: \<^verbatim>\<open>starts_empty_or_ws\<close> and \<^verbatim>\<open>parse_line\<close>\<close>

text \<open>The four separator characters tested in the source: space, tab, CR and LF.\<close>

definition is_ws :: "char \<Rightarrow> bool" where
  "is_ws c \<longleftrightarrow> c = CHR '' '' \<or> c = CHR 0x09 \<or> c = CHR 0x0D \<or> c = CHR 0x0A"

text \<open>\<^verbatim>\<open>starts_empty_or_ws\<close>: 1 (here \<open>True\<close>) iff every character is a separator.\<close>

fun starts_empty_or_ws :: "string \<Rightarrow> bool" where
  "starts_empty_or_ws [] = True"
| "starts_empty_or_ws (c # cs) = (if \<not> is_ws c then False else starts_empty_or_ws cs)"

text \<open>The loop \<^verbatim>\<open>while (*line is a separator) line++;\<close>\<close>

fun skip_ws :: "string \<Rightarrow> string" where
  "skip_ws [] = []"
| "skip_ws (c # cs) = (if is_ws c then skip_ws cs else c # cs)"

text \<open>
  The loop \<^verbatim>\<open>while (*line != '\0' && *line is no separator) line++;\<close> It returns
  the characters passed over (the token that \<^verbatim>\<open>argv[argc]\<close> points to once it is
  terminated) and the rest of the line, from the character where the loop stopped.
\<close>

fun scan_token :: "string \<Rightarrow> string \<times> string" where
  "scan_token [] = ([], [])"
| "scan_token (c # cs) =
     (if is_ws c then ([], c # cs)
      else (case scan_token cs of (tok, rest) \<Rightarrow> (c # tok, rest)))"

lemma scan_token_eq:
  "scan_token l = (takeWhile (\<lambda>c. \<not> is_ws c) l, dropWhile (\<lambda>c. \<not> is_ws c) l)"
  by (induction l) auto

lemma skip_ws_eq: "skip_ws l = dropWhile is_ws l"
  by (induction l) auto

lemma length_skip_ws: "length (skip_ws l) \<le> length l"
  by (simp add: skip_ws_eq length_dropWhile_le)

lemma length_scan_token_rest: "scan_token l = (tok, rest) \<Longrightarrow> length rest \<le> length l"
  by (auto simp: scan_token_eq length_dropWhile_le)

lemma parse_loop_measure:
  "scan_token line = (tok, c # rest) \<Longrightarrow> length (skip_ws rest) < length line"
  using length_scan_token_rest [of line tok "c # rest"] length_skip_ws [of rest]
  by simp

text \<open>
  The main loop of \<^verbatim>\<open>parse_line\<close>. \<open>argv\<close> holds the tokens stored so far, so
  \<^verbatim>\<open>argc\<close> is its length. When the scan stops at the end of the line the loop is
  left by \<^verbatim>\<open>break\<close>; otherwise the separator is overwritten by NUL, skipped, and
  the separators after it are skipped.
\<close>

function parse_loop :: "string \<Rightarrow> string list \<Rightarrow> int \<Rightarrow> string list" where
  "parse_loop line argv max_args =
     (if line \<noteq> [] \<and> int (length argv) < max_args - 1 then
        (case scan_token line of
           (tok, []) \<Rightarrow> argv @ [tok]
         | (tok, c # rest) \<Rightarrow> parse_loop (skip_ws rest) (argv @ [tok]) max_args)
      else argv)"
  by pat_completeness auto
termination
  apply (relation "measure (\<lambda>(line, argv, max_args). length line)")
   apply simp
  apply (simp add: parse_loop_measure [OF sym])
  done

declare parse_loop.simps [simp del]

text \<open>\<^verbatim>\<open>parse_line\<close>: the tokens stored in \<^verbatim>\<open>argv[0..argc-1]\<close>; \<^verbatim>\<open>argc\<close> is their number.\<close>

definition parse_line :: "string \<Rightarrow> int \<Rightarrow> string list" where
  "parse_line line max_args = parse_loop (skip_ws line) [] max_args"


subsection \<open>The operating system and the state of the shell process\<close>

text \<open>C's \<^verbatim>\<open>int\<close> is 32 bits wide; \<open>sint\<close> reads it as a signed value.\<close>

type_synonym c_int = "32 word"

text \<open>
  One \<^verbatim>\<open>read(STDIN_FILENO, &c, 1)\<close> returns a byte or fails; at the end of the
  list of pending results it returns 0 (end of input).
\<close>

datatype read_result = Byte char | ReadError

text \<open>
  System calls the shell makes that the claims speak about: \<^verbatim>\<open>access(path, X_OK)\<close>,
  \<^verbatim>\<open>chdir(target)\<close>, and a \<^verbatim>\<open>fork()\<close> that created a child, with the arguments of
  the \<^verbatim>\<open>execv(path, argv)\<close> the child goes on to call.
\<close>

datatype syscall = Access string | Chdir string | Spawn string "string list"

record world =
  out :: string
  err :: string
  cwd :: string
  stdin :: "read_result list"
  calls :: "syscall list"

text \<open>
  What the parent learns of an external command: \<^verbatim>\<open>fork()\<close> failed, or
  \<^verbatim>\<open>waitpid()\<close> failed, or \<^verbatim>\<open>waitpid()\<close> stored a wait status. A failure carries the
  text \<^verbatim>\<open>strerror(errno)\<close> that \<^verbatim>\<open>perror\<close> prints.
\<close>

datatype launch = ForkFailed string | WaitFailed string | Terminated c_int

text \<open>
  The answers of the operating system, each a function of the state of the shell at
  the call. \<open>WIFEXITED\<close>, \<open>WEXITSTATUS\<close>, \<open>WIFSIGNALED\<close> and \<open>WTERMSIG\<close> are the
  macros of \<^verbatim>\<open><sys/wait.h>\<close>, which is not part of the repository: they are
  parameters. \<open>out\<close> and \<open>err\<close> collect the bytes the shell process itself submits
  to file descriptors 1 and 2; what a child writes is not part of them.
\<close>

record os =
  HOME :: "string option"
  access_X_OK :: "world \<Rightarrow> string \<Rightarrow> bool"
  chdir_os :: "world \<Rightarrow> string \<Rightarrow> string + string"
  launch_os :: "world \<Rightarrow> string \<Rightarrow> string list \<Rightarrow> launch"
  prompt_write_error :: "world \<Rightarrow> string option"
  alloc_ok :: "nat \<Rightarrow> bool"
  WIFEXITED :: "c_int \<Rightarrow> bool"
  WEXITSTATUS :: "c_int \<Rightarrow> c_int"
  WIFSIGNALED :: "c_int \<Rightarrow> bool"
  WTERMSIG :: "c_int \<Rightarrow> c_int"

definition STDOUT_FILENO :: int where
  "STDOUT_FILENO = 1"

definition STDERR_FILENO :: int where
  "STDERR_FILENO = 2"

definition log_call :: "syscall \<Rightarrow> world \<Rightarrow> world" where
  "log_call c w = w\<lparr>calls := calls w @ [c]\<rparr>"

subsection \<open>Output helpers: \<^verbatim>\<open>write_str\<close>, \<^verbatim>\<open>write_chr\<close>, \<^verbatim>\<open>write_int\<close>, \<^verbatim>\<open>perror\<close>\<close>

text \<open>
  \<^verbatim>\<open>(void)write(fd, s, n)\<close>: the result is ignored by the source, the bytes are
  appended to the channel of \<open>fd\<close>. \<^verbatim>\<open>write_str\<close> counts the characters before the
  NUL and writes that many, so it writes the whole C string.
\<close>

definition write_fd :: "int \<Rightarrow> string \<Rightarrow> world \<Rightarrow> world" where
  "write_fd fd s w =
     (if fd = STDOUT_FILENO then w\<lparr>out := out w @ s\<rparr>
      else if fd = STDERR_FILENO then w\<lparr>err := err w @ s\<rparr>
      else w)"

definition write_str :: "int \<Rightarrow> string \<Rightarrow> world \<Rightarrow> world" where
  "write_str fd s w = write_fd fd s w"

definition write_chr :: "int \<Rightarrow> char \<Rightarrow> world \<Rightarrow> world" where
  "write_chr fd c w = write_fd fd [c] w"

text \<open>\<^verbatim>\<open>perror(s)\<close> with \<open>e\<close> the text of \<^verbatim>\<open>strerror(errno)\<close>.\<close>

definition perror :: "string \<Rightarrow> string \<Rightarrow> world \<Rightarrow> world" where
  "perror s e w = w\<lparr>err := err w @ s @ '': '' @ e @ ''\<newline>''\<rparr>"

text \<open>
  The first loop of \<^verbatim>\<open>write_int\<close>: \<open>buf\<close> holds the digits produced so far, least
  significant first, and \<^verbatim>\<open>i\<close> is its length. \<open>x\<close> is positive here, where C's
  \<^verbatim>\<open>/\<close> and \<^verbatim>\<open>%\<close> agree with \<open>div\<close> and \<open>mod\<close>.
\<close>

function digits_loop :: "int \<Rightarrow> string \<Rightarrow> string" where
  "digits_loop x buf =
     (if x > 0 \<and> int (length buf) < 32
      then digits_loop (x div 10) (buf @ [char_of (48 + x mod 10)])
      else buf)"
  by pat_completeness auto
termination
  by (relation "measure (\<lambda>(x, buf). nat x)") auto

declare digits_loop.simps [simp del]

text \<open>The second loop: \<^verbatim>\<open>while (i > 0) write_chr(fd, buf[--i]);\<close>\<close>

definition write_digits :: "int \<Rightarrow> string \<Rightarrow> world \<Rightarrow> world" where
  "write_digits fd buf w = fold (write_chr fd) (rev buf) w"

definition write_int :: "int \<Rightarrow> c_int \<Rightarrow> world \<Rightarrow> world" where
  "write_int fd x w =
     (if x = 0 then write_chr fd CHR ''0'' w
      else if sint x < 0 then
        (let w1 = write_chr fd CHR ''-'' w in
         if sint x = - 2147483647 - 1 then write_str fd ''2147483648'' w1
         else write_digits fd (digits_loop (sint (- x)) []) w1)
      else write_digits fd (digits_loop (sint x) []) w)"


subsection \<open>Executable resolver: \<^verbatim>\<open>build_path\<close> and \<^verbatim>\<open>find_executable\<close>\<close>

text \<open>
  \<^verbatim>\<open>build_path\<close> returns 0 (here \<open>None\<close>) when \<open>prefix\<close>, the slash, \<open>cmd\<close> and the
  NUL do not fit into \<open>out_sz\<close> bytes, and otherwise fills \<open>out\<close> (here \<open>Some\<close> of
  the string built).
\<close>

definition build_path :: "nat \<Rightarrow> string \<Rightarrow> string \<Rightarrow> string option" where
  "build_path out_sz prefix cmd =
     (let p = length prefix; c = length cmd in
      if p + 1 + c + 1 > out_sz then None
      else Some (prefix @ [CHR ''/''] @ cmd))"

text \<open>
  \<^verbatim>\<open>find_executable\<close> returns 1 with the path left in \<open>out\<close> (here \<open>Some\<close> path) or
  0 (\<open>None\<close>). Each \<^verbatim>\<open>access\<close> call is logged.
\<close>

definition find_executable :: "os \<Rightarrow> string \<Rightarrow> nat \<Rightarrow> world \<Rightarrow> string option \<times> world" where
  "find_executable os cmd out_sz w =
     (let home = HOME os;
          (found, w1) =
            (if home \<noteq> None \<and> the home \<noteq> [] then
               (case build_path out_sz (the home) cmd of
                  Some path \<Rightarrow>
                    (if access_X_OK os w path then Some path else None,
                     log_call (Access path) w)
                | None \<Rightarrow> (None, w))
             else (None, w))
      in case found of
           Some path \<Rightarrow> (Some path, w1)
         | None \<Rightarrow>
             (case build_path out_sz ''/bin'' cmd of
                Some path \<Rightarrow>
                  (if access_X_OK os w1 path then Some path else None,
                   log_call (Access path) w1)
              | None \<Rightarrow> (None, w1)))"

subsection \<open>\<^verbatim>\<open>print_unknown\<close>, \<^verbatim>\<open>report_status\<close>, \<^verbatim>\<open>execute_external\<close>\<close>

definition print_unknown :: "string \<Rightarrow> world \<Rightarrow> world" where
  "print_unknown cmd w =
     write_str STDERR_FILENO '']: Unknown Command\<newline>''
       (write_str STDERR_FILENO cmd
         (write_chr STDERR_FILENO CHR ''['' w))"

definition report_status :: "os \<Rightarrow> c_int \<Rightarrow> world \<Rightarrow> world" where
  "report_status os status w =
     (if WIFEXITED os status then
        (let code = WEXITSTATUS os status in
         write_chr STDOUT_FILENO CHR ''\<newline>''
           (write_int STDOUT_FILENO code
             (write_str STDOUT_FILENO ''Command executed successfully. Return code: '' w)))
      else if WIFSIGNALED os status then
        (let sig = WTERMSIG os status in
         write_chr STDOUT_FILENO CHR ''\<newline>''
           (write_int STDOUT_FILENO sig
             (write_str STDOUT_FILENO ''Command terminated by signal: '' w)))
      else write_str STDOUT_FILENO ''Command finished. (unknown status)\<newline>'' w)"

text \<open>
  \<^verbatim>\<open>execute_external\<close>, as the parent process runs it. \<^verbatim>\<open>main\<close> calls it with at
  least one token, and \<^verbatim>\<open>argv[0]\<close> is the first one; with no token the source would
  read through the NULL in \<^verbatim>\<open>argv[0]\<close>, and the model has no equation for that. The
  branch \<^verbatim>\<open>pid == 0\<close> is run by the child, a different process: it is recorded as
  the \<open>Spawn\<close> call.
\<close>

fun execute_external :: "os \<Rightarrow> string list \<Rightarrow> world \<Rightarrow> world" where
  "execute_external os (cmd # args) w =
     (case find_executable os cmd PATH_BUF w of
        (None, w1) \<Rightarrow> print_unknown cmd w1
      | (Some path, w1) \<Rightarrow>
          (case launch_os os w1 path (cmd # args) of
             ForkFailed e \<Rightarrow> perror ''fork'' e w1
           | WaitFailed e \<Rightarrow> perror ''waitpid'' e (log_call (Spawn path (cmd # args)) w1)
           | Terminated status \<Rightarrow>
               report_status os status (log_call (Spawn path (cmd # args)) w1)))"

subsection \<open>The built-in \<^verbatim>\<open>cd\<close>\<close>

text \<open>
  \<^verbatim>\<open>chdir(target)\<close> answers with the new working directory (\<open>Inr\<close>) or with the
  error text (\<open>Inl\<close>), in which case the working directory stays as it is.
\<close>

definition builtin_cd :: "os \<Rightarrow> string list \<Rightarrow> int \<Rightarrow> world \<Rightarrow> world" where
  "builtin_cd os argv argc w =
     (let target = (if argc \<ge> 2 then Some (argv ! 1) else HOME os) in
      case target of
        None \<Rightarrow> write_str STDERR_FILENO ''cd: HOME not set\<newline>'' w
      | Some t \<Rightarrow>
          (case chdir_os os w t of
             Inl e \<Rightarrow> perror ''chdir'' e (log_call (Chdir t) w)
           | Inr d \<Rightarrow> (log_call (Chdir t) w)\<lparr>cwd := d\<rparr>))"


subsection \<open>\<^verbatim>\<open>read_line\<close>\<close>

text \<open>
  The state of the input buffer that \<^verbatim>\<open>main\<close> keeps between lines: whether the
  pointer is NULL, and the capacity. \<^verbatim>\<open>malloc\<close> and \<^verbatim>\<open>realloc\<close> succeed for a size
  iff \<open>alloc_ok\<close> says so.
\<close>

record linebuf =
  buf_null :: bool
  cap :: nat

text \<open>
  The loop of \<^verbatim>\<open>read_line\<close>, over the pending results of \<^verbatim>\<open>read\<close>. \<open>acc\<close> holds
  the \<^verbatim>\<open>len\<close> characters stored so far. The result is the line, or \<open>None\<close> for the
  return value -1; then the capacity; then the results of \<^verbatim>\<open>read\<close> still pending.
\<close>

fun read_loop :: "os \<Rightarrow> read_result list \<Rightarrow> string \<Rightarrow> nat \<Rightarrow> string option \<times> nat \<times> read_result list" where
  "read_loop os [] acc cp = (if length acc = 0 then (None, cp, []) else (Some acc, cp, []))"
| "read_loop os (ReadError # rest) acc cp = (None, cp, rest)"
| "read_loop os (Byte c # rest) acc cp =
     (if length acc + 2 > cp \<and> \<not> alloc_ok os (cp * 2) then (None, cp, rest)
      else
        (let new_cap = (if length acc + 2 > cp then cp * 2 else cp) in
         if c = CHR ''\<newline>'' then (Some (acc @ [c]), new_cap, rest)
         else read_loop os rest (acc @ [c]) new_cap))"

definition read_line :: "os \<Rightarrow> linebuf \<Rightarrow> world \<Rightarrow> string option \<times> linebuf \<times> world" where
  "read_line os lb w =
     (if (buf_null lb \<or> cap lb = 0) \<and> \<not> alloc_ok os INITIAL_BUF
      then (None, \<lparr>buf_null = True, cap = INITIAL_BUF\<rparr>, w)
      else
        (let cap0 = (if buf_null lb \<or> cap lb = 0 then INITIAL_BUF else cap lb) in
         case read_loop os (stdin w) [] cap0 of
           (r, new_cap, rest) \<Rightarrow> (r, \<lparr>buf_null = False, cap = new_cap\<rparr>, w\<lparr>stdin := rest\<rparr>)))"

text \<open>A buffer read as a C string ends at its first NUL.\<close>

definition c_str :: "string \<Rightarrow> string" where
  "c_str buf = takeWhile (\<lambda>c. c \<noteq> CHR 0x00) buf"

subsection \<open>The dispatcher: \<^verbatim>\<open>main\<close>\<close>

datatype loop_ctl = Continue | Break

text \<open>
  Steps 3 and 4 of the loop body, and the whitespace test before them, for a line that
  was read: what the loop does next, and the new state.
\<close>

definition process_line :: "os \<Rightarrow> string \<Rightarrow> world \<Rightarrow> loop_ctl \<times> world" where
  "process_line os line w =
     (if starts_empty_or_ws line then (Continue, w)
      else
        (let argv = parse_line line MAX_ARGS; argc = int (length argv) in
         if argc = 0 then (Continue, w)
         else if hd argv = ''exit'' then (Break, w)
         else if hd argv = ''cd'' then (Continue, builtin_cd os argv argc w)
         else (Continue, execute_external os argv w)))"

text \<open>Step 1: the prompt, of which \<open>PROMPT_LEN\<close> bytes are written.\<close>

definition write_prompt :: "os \<Rightarrow> world \<Rightarrow> string + world" where
  "write_prompt os w =
     (case prompt_write_error os w of
        Some e \<Rightarrow> Inl e
      | None \<Rightarrow> Inr (write_fd STDOUT_FILENO (take PROMPT_LEN PROMPT) w))"


subsection \<open>Decimal numerals\<close>

text \<open>
  The decimal numeral of a natural number, most significant digit first and without
  leading zeros, and of an integer, with a minus sign when negative. This is what the
  messages of the specification mean by \<open>{code}\<close> and \<open>{n}\<close>.
\<close>

fun decimal :: "nat \<Rightarrow> string" where
  "decimal n =
     (if n < 10 then [char_of (48 + n)]
      else decimal (n div 10) @ [char_of (48 + n mod 10)])"

declare decimal.simps [simp del]

definition decimal_int :: "int \<Rightarrow> string" where
  "decimal_int i = (if i < 0 then CHR ''-'' # decimal (nat (- i)) else decimal (nat i))"

subsection \<open>\<^verbatim>\<open>write_int\<close> prints the decimal numeral\<close>

lemma write_fd_Nil: "write_fd fd [] w = w"
  by (simp add: write_fd_def)

lemma write_fd_append: "write_fd fd t (write_fd fd s w) = write_fd fd (s @ t) w"
  by (simp add: write_fd_def)

lemma fold_write_chr: "fold (write_chr fd) s w = write_fd fd s w"
proof (induction s arbitrary: w)
  case Nil
  show ?case by (simp add: write_fd_Nil)
next
  case (Cons c s)
  have "fold (write_chr fd) (c # s) w = write_fd fd s (write_fd fd [c] w)"
    by (simp add: Cons.IH write_chr_def)
  then show ?case by (simp add: write_fd_append)
qed

lemma write_digits_eq: "write_digits fd buf w = write_fd fd (rev buf) w"
  by (simp add: write_digits_def fold_write_chr)

lemma digits_loop_decimal:
  "n < 10 ^ (32 - length buf) \<Longrightarrow>
   rev (digits_loop (int n) buf) = (if n = 0 then [] else decimal n) @ rev buf"
proof (induction n arbitrary: buf rule: less_induct)
  case (less n)
  show ?case
  proof (cases "n = 0")
    case True
    then show ?thesis by (subst digits_loop.simps) simp
  next
    case False
    have len: "length buf < 32"
    proof (rule ccontr)
      assume "\<not> length buf < 32"
      with less.prems have "n < 1" by simp
      with False show False by simp
    qed
    let ?d = "char_of (48 + int n mod 10) :: char"
    have d: "?d = char_of (48 + n mod 10)"
      by (metis char_of_nat of_nat_add of_nat_mod of_nat_numeral)
    have "(10::nat) ^ (32 - length buf) = 10 * 10 ^ (32 - length (buf @ [?d]))"
      using len by (simp add: Suc_diff_Suc flip: power_Suc)
    with less.prems have small: "n div 10 < 10 ^ (32 - length (buf @ [?d]))"
      by (simp add: less_mult_imp_div_less mult.commute)
    have "n div 10 < n"
      using False by simp
    then have IH: "rev (digits_loop (int (n div 10)) (buf @ [?d])) =
        (if n div 10 = 0 then [] else decimal (n div 10)) @ rev (buf @ [?d])"
      using small by (rule less.IH)
    have step: "digits_loop (int n) buf = digits_loop (int (n div 10)) (buf @ [?d])"
      using False len by (subst digits_loop.simps) (simp add: zdiv_int)
    have dec: "decimal n = (if n div 10 = 0 then [] else decimal (n div 10)) @ [?d]"
      by (subst decimal.simps) (auto simp: d)
    show ?thesis
      using False by (simp only: step IH dec) simp
  qed
qed

lemma digits_loop_c_int:
  assumes "0 < i" and "i < 2 ^ 31"
  shows "rev (digits_loop i []) = decimal (nat i)"
proof -
  have "nat i < 10 ^ (32 - length ([] :: string))"
    using assms by simp
  from digits_loop_decimal [OF this] assms show ?thesis
    by simp
qed


lemma decimal_0: "decimal 0 = ''0''"
  by code_simp

lemma sint_neg_c_int:
  fixes x :: c_int
  assumes "sint x \<noteq> - 2147483648"
  shows "sint (- x) = - sint x"
proof -
  have "- (2 ^ 31) \<le> sint x" "sint x < 2 ^ 31"
    using sint_ge [of x] sint_lt [of x] by simp_all
  with assms have "- (2 ^ 31) \<le> - sint x" "- sint x < 2 ^ 31"
    by simp_all
  then have "signed_take_bit 31 (- sint x) = - sint x"
    by (simp add: signed_take_bit_int_eq_self)
  then show ?thesis
    by (simp add: sint_word_minus)
qed

lemma write_int_decimal: "write_int fd x w = write_fd fd (decimal_int (sint x)) w"
proof -
  have range: "- (2 ^ 31) \<le> sint x" "sint x < 2 ^ 31"
    using sint_ge [of x] sint_lt [of x] by simp_all
  have zero_iff: "sint x = 0 \<longleftrightarrow> x = 0"
    by (rule signed_eq_0_iff)
  consider (zero) "x = 0" | (neg) "sint x < 0" | (pos) "0 < sint x"
    using zero_iff by fastforce
  then show ?thesis
  proof cases
    case zero
    then show ?thesis
      by (simp add: write_int_def write_chr_def decimal_int_def decimal_0)
  next
    case neg
    then have nz: "x \<noteq> 0" by auto
    show ?thesis
    proof (cases "sint x = - 2147483647 - 1")
      case True
      have "decimal 2147483648 = ''2147483648''"
        by (simp add: decimal.simps char_of_def bit_Suc_0_iff)
      with True neg nz show ?thesis
        by (simp add: write_int_def write_chr_def write_str_def decimal_int_def write_fd_append)
    next
      case False
      then have m: "sint (- x) = - sint x"
        by (simp add: sint_neg_c_int)
      with neg range False have "0 < sint (- x)" "sint (- x) < 2 ^ 31"
        by simp_all
      then have "rev (digits_loop (sint (- x)) []) = decimal (nat (- sint x))"
        using digits_loop_c_int [of "sint (- x)"] m by simp
      with neg nz False show ?thesis
        by (simp add: write_int_def write_chr_def write_digits_eq decimal_int_def write_fd_append)
    qed
  next
    case pos
    then have "x \<noteq> 0" by auto
    with range digits_loop_c_int [of "sint x"] pos show ?thesis
      by (simp add: write_int_def write_digits_eq decimal_int_def)
  qed
qed


subsection \<open>The loop of \<^verbatim>\<open>main\<close>\<close>

text \<open>
  Nothing but \<^verbatim>\<open>read_line\<close> touches the pending input, and a line that was read
  consumed some of it: the loop of \<^verbatim>\<open>main\<close> ends on every finite input.
\<close>

lemma stdin_write_fd [simp]: "stdin (write_fd fd s w) = stdin w"
  by (simp add: write_fd_def)

lemma stdin_log_call [simp]: "stdin (log_call c w) = stdin w"
  by (simp add: log_call_def)

lemma stdin_perror [simp]: "stdin (perror s e w) = stdin w"
  by (simp add: perror_def)

lemma stdin_report_status [simp]: "stdin (report_status os status w) = stdin w"
  by (simp add: report_status_def write_str_def write_chr_def write_int_decimal)

lemma stdin_find_executable [simp]: "stdin (snd (find_executable os cmd sz w)) = stdin w"
  by (simp add: find_executable_def Let_def split: option.splits prod.splits)

lemma stdin_execute_external [simp]:
  "argv \<noteq> [] \<Longrightarrow> stdin (execute_external os argv w) = stdin w"
proof (cases argv)
  case Nil
  moreover assume "argv \<noteq> []"
  ultimately show ?thesis by simp
next
  case (Cons cmd args)
  obtain r w1 where fe: "find_executable os cmd PATH_BUF w = (r, w1)"
    by (cases "find_executable os cmd PATH_BUF w")
  then have "stdin w1 = stdin w"
    using stdin_find_executable [of os cmd PATH_BUF w] by simp
  with Cons fe show ?thesis
    by (simp add: print_unknown_def write_str_def write_chr_def split: option.splits launch.splits)
qed

lemma stdin_builtin_cd [simp]: "stdin (builtin_cd os argv argc w) = stdin w"
  by (simp add: builtin_cd_def write_str_def split: option.splits sum.splits)

lemma stdin_process_line [simp]: "stdin (snd (process_line os line w)) = stdin w"
  by (simp add: process_line_def Let_def)

lemma stdin_write_prompt: "write_prompt os w = Inr w1 \<Longrightarrow> stdin w1 = stdin w"
  by (auto simp: write_prompt_def split: option.splits)

lemma read_loop_consumes:
  "read_loop os inp acc cp = (Some line, cp', rest) \<Longrightarrow> inp \<noteq> [] \<Longrightarrow> length rest < length inp"
proof (induction os inp acc cp rule: read_loop.induct)
  case (1 os acc cp)
  then show ?case by simp
next
  case (2 os rest acc cp)
  then show ?case by simp
next
  case (3 os c rest' acc cp)
  show ?case
  proof (cases "rest' = []")
    case True
    with "3.prems" show ?thesis
      by (auto simp: Let_def split: if_splits)
  next
    case False
    with "3.prems" "3.IH" show ?thesis
      by (fastforce simp: Let_def split: if_splits)
  qed
qed

lemma read_loop_Nil: "read_loop os [] [] cp = (None, cp, [])"
  by simp

lemma read_line_consumes:
  "read_line os lb w = (Some line, lb', w') \<Longrightarrow> length (stdin w') < length (stdin w)"
proof -
  assume a: "read_line os lb w = (Some line, lb', w')"
  then obtain cp cp' rest where rl: "read_loop os (stdin w) [] cp = (Some line, cp', rest)"
      and w': "w' = w\<lparr>stdin := rest\<rparr>"
    by (auto simp: read_line_def Let_def split: if_splits prod.splits)
  have "stdin w \<noteq> []"
    using rl by (cases "stdin w") auto
  with rl have "length rest < length (stdin w)"
    by (rule read_loop_consumes)
  with w' show ?thesis by simp
qed

lemma main_loop_measure:
  assumes "write_prompt os w = Inr w1"
    and "read_line os lb w1 = (Some line, lb', w2)"
    and "process_line os l w2 = (ctl, w3)"
  shows "length (stdin w3) < length (stdin w)"
proof -
  have "stdin w3 = stdin w2"
    using stdin_process_line [of os l w2] assms(3) by simp
  moreover have "length (stdin w2) < length (stdin w1)"
    using assms(2) by (rule read_line_consumes)
  moreover have "stdin w1 = stdin w"
    using assms(1) by (rule stdin_write_prompt)
  ultimately show ?thesis by simp
qed


text \<open>
  The loop \<^verbatim>\<open>while (1)\<close> of \<^verbatim>\<open>main\<close>, from the prompt on, with the state of the
  input buffer. It returns the state in which the loop is left.
\<close>

function main_loop :: "os \<Rightarrow> linebuf \<Rightarrow> world \<Rightarrow> world" where
  "main_loop os lb w =
     (case write_prompt os w of
        Inl e \<Rightarrow> perror ''write'' e w
      | Inr w1 \<Rightarrow>
          (case read_line os lb w1 of
             (None, lb', w2) \<Rightarrow> write_chr STDOUT_FILENO CHR ''\<newline>'' w2
           | (Some line, lb', w2) \<Rightarrow>
               (case process_line os (c_str line) w2 of
                  (Break, w3) \<Rightarrow> w3
                | (Continue, w3) \<Rightarrow> main_loop os lb' w3)))"
  by pat_completeness auto

termination
  apply (relation "measure (\<lambda>(os, lb, w). length (stdin w))")
   apply simp
  apply clarsimp
  apply (erule main_loop_measure [OF _ sym sym], assumption+)
  done


declare main_loop.simps [simp del]

text \<open>
  \<^verbatim>\<open>main\<close>: the exit code of the process and the final state. The buffer starts as
  \<^verbatim>\<open>line = NULL\<close>, \<^verbatim>\<open>cap = 0\<close>, and \<^verbatim>\<open>free(line)\<close> has no effect on the state.
\<close>

definition main :: "os \<Rightarrow> world \<Rightarrow> int \<times> world" where
  "main os w = (let w' = main_loop os \<lparr>buf_null = True, cap = 0\<rparr> w in (0, w'))"


section \<open>The specification's notions\<close>

subsection \<open>Tokens: maximal runs of non-separator characters\<close>

text \<open>
  Following the words of the specification, not the code: the line is split at the
  separators, \<open>cur\<close> collecting the run being read, and a run is emitted when a
  separator or the end of the line follows it; empty runs are not emitted.
\<close>

fun split_ws :: "string \<Rightarrow> string \<Rightarrow> string list" where
  "split_ws cur [] = (if cur = [] then [] else [cur])"
| "split_ws cur (c # cs) =
     (if is_ws c then (if cur = [] then split_ws [] cs else cur # split_ws [] cs)
      else split_ws (cur @ [c]) cs)"

definition nonws_runs :: "string \<Rightarrow> string list" where
  "nonws_runs line = split_ws [] line"

subsection \<open>Termination outcomes and their messages\<close>

datatype TerminationOutcome = ExitedNormally int | KilledBySignal int | Unknown

text \<open>The outcome that a wait status stands for, read with the macros.\<close>

definition outcome_of :: "os \<Rightarrow> c_int \<Rightarrow> TerminationOutcome" where
  "outcome_of os status =
     (if WIFEXITED os status then ExitedNormally (sint (WEXITSTATUS os status))
      else if WIFSIGNALED os status then KilledBySignal (sint (WTERMSIG os status))
      else Unknown)"

text \<open>The message of each outcome, as the specification lists them.\<close>

fun status_message :: "TerminationOutcome \<Rightarrow> string" where
  "status_message (ExitedNormally code) =
     ''Command executed successfully. Return code: '' @ decimal_int code"
| "status_message (KilledBySignal n) = ''Command terminated by signal: '' @ decimal_int n"
| "status_message Unknown = ''Command finished. (unknown status)''"

subsection \<open>Path buffer and children\<close>

text \<open>A candidate \<open>prefix/cmd\<close> with its NUL fits into the buffer of \<open>PATH_BUF\<close> bytes.\<close>

definition fits_path_buf :: "string \<Rightarrow> string \<Rightarrow> bool" where
  "fits_path_buf prefix cmd \<longleftrightarrow> length prefix + 1 + length cmd + 1 \<le> PATH_BUF"

text \<open>
  The second step of the search alone, from the state \<open>w\<close>: \<^verbatim>\<open>/bin/cmd\<close> is tried
  when it fits into the buffer, and it qualifies when it is executable.
\<close>

definition bin_candidate :: "os \<Rightarrow> string \<Rightarrow> world \<Rightarrow> string option \<times> world" where
  "bin_candidate os cmd w =
     (if fits_path_buf ''/bin'' cmd then
        (if access_X_OK os w (''/bin/'' @ cmd) then Some (''/bin/'' @ cmd) else None,
         log_call (Access (''/bin/'' @ cmd)) w)
      else (None, w))"

text \<open>
  The search in the words of the specification, over the paths that are executable:
  \<^verbatim>\<open>${HOME}/cmd\<close> first, when \<^verbatim>\<open>HOME\<close> is set and non-empty, then \<^verbatim>\<open>/bin/cmd\<close>; the
  first executable candidate wins.
\<close>

definition search_order :: "string option \<Rightarrow> (string \<Rightarrow> bool) \<Rightarrow> string \<Rightarrow> string option" where
  "search_order home executable cmd =
     (if home \<noteq> None \<and> the home \<noteq> [] \<and> executable (the home @ ''/'' @ cmd)
      then Some (the home @ ''/'' @ cmd)
      else if executable (''/bin/'' @ cmd) then Some (''/bin/'' @ cmd)
      else None)"

text \<open>The children created so far, each with the arguments of its \<^verbatim>\<open>execv\<close>.\<close>

fun spawned_of :: "syscall list \<Rightarrow> (string \<times> string list) list" where
  "spawned_of [] = []"
| "spawned_of (Spawn path argv # cs) = (path, argv) # spawned_of cs"
| "spawned_of (Access path # cs) = spawned_of cs"
| "spawned_of (Chdir target # cs) = spawned_of cs"

definition spawned :: "world \<Rightarrow> (string \<times> string list) list" where
  "spawned w = spawned_of (calls w)"

subsection \<open>The target of \<^verbatim>\<open>cd\<close>\<close>

text \<open>
  In the specification's words: the second token if present, otherwise the \<^verbatim>\<open>HOME\<close>
  environment variable. \<open>args\<close> are the tokens after \<^verbatim>\<open>cd\<close>.
\<close>

definition cd_target :: "os \<Rightarrow> string list \<Rightarrow> string option" where
  "cd_target os args = (case args of t # ts \<Rightarrow> Some t | [] \<Rightarrow> HOME os)"

subsection \<open>The capacity of the line buffer\<close>

text \<open>
  The invariant of the loop of \<^verbatim>\<open>read_line\<close>, for a buffer that started with
  \<open>cap0\<close> bytes: with \<open>len\<close> characters stored, the capacity \<open>cp\<close> has room for
  one more character, it is \<open>cap0\<close> doubled some number of times, and once doubled
  it is less than twice what is needed.
\<close>

definition buf_inv :: "nat \<Rightarrow> nat \<Rightarrow> nat \<Rightarrow> bool" where
  "buf_inv cap0 len cp \<longleftrightarrow>
     len + 1 \<le> cp \<and> (\<exists>i. cp = cap0 * 2 ^ i \<and> (0 < i \<longrightarrow> cp < 2 * (len + 1)))"

subsection \<open>A sample system\<close>

text \<open>
  A concrete operating system and starting state, used to instantiate the theorems:
  \<^verbatim>\<open>/bin/ls\<close> and \<^verbatim>\<open>/home/u/hello\<close> are executable, \<^verbatim>\<open>/tmp\<close> and \<^verbatim>\<open>/home/u\<close>
  are directories, every command exits with code 0, and the wait status is encoded as
  on Linux.
\<close>

definition sample_os :: os where
  "sample_os =
     \<lparr>HOME = Some ''/home/u'',
      access_X_OK = (\<lambda>w p. p = ''/bin/ls'' \<or> p = ''/home/u/hello''),
      chdir_os = (\<lambda>w t. if t = ''/tmp'' \<or> t = ''/home/u'' then Inr t
                          else Inl ''No such file or directory''),
      launch_os = (\<lambda>w p a. Terminated 0),
      prompt_write_error = (\<lambda>w. None),
      alloc_ok = (\<lambda>n. True),
      WIFEXITED = (\<lambda>s. unat s mod 128 = 0),
      WEXITSTATUS = (\<lambda>s. of_nat (unat s div 256 mod 256)),
      WIFSIGNALED = (\<lambda>s. 0 < unat s mod 128 \<and> unat s mod 128 < 127),
      WTERMSIG = (\<lambda>s. of_nat (unat s mod 128))\<rparr>"

definition sample_world :: "read_result list \<Rightarrow> world" where
  "sample_world input = \<lparr>out = [], err = [], cwd = ''/'', stdin = input, calls = []\<rparr>"


text \<open>The sample system with every path executable.\<close>

definition all_executable_os :: os where
  "all_executable_os = sample_os\<lparr>access_X_OK := (\<lambda>w p. True)\<rparr>"

text \<open>
  The sample system with \<^verbatim>\<open>ls\<close> executable both in \<^verbatim>\<open>HOME\<close> and in \<^verbatim>\<open>/bin\<close>.
\<close>

definition both_ls_os :: os where
  "both_ls_os = sample_os\<lparr>access_X_OK := (\<lambda>w p. p = ''/home/u/ls'' \<or> p = ''/bin/ls'')\<rparr>"

text \<open>
  The sample system with \<^verbatim>\<open>malloc\<close> and \<^verbatim>\<open>realloc\<close> succeeding up to \<open>limit\<close> bytes.
\<close>

definition small_memory_os :: "nat \<Rightarrow> os" where
  "small_memory_os limit = sample_os\<lparr>alloc_ok := (\<lambda>n. n \<le> limit)\<rparr>"

text \<open>
  A long command name with short components: \<open>n\<close> times \<^verbatim>\<open>./\<close> before \<open>base\<close>.
\<close>

definition long_name :: "nat \<Rightarrow> string \<Rightarrow> string" where
  "long_name n base = concat (replicate n ''./'') @ base"

subsection \<open>Sample lines\<close>

text \<open>The line of \<open>n\<close> words \<^verbatim>\<open>x\<close>, each followed by a space.\<close>

definition words_line :: "nat \<Rightarrow> string" where
  "words_line n = concat (replicate n ''x '')"


section \<open>The tokenizer\<close>

subsection \<open>\<^verbatim>\<open>parse_line\<close> returns the leading runs\<close>

lemma split_ws_skip: "split_ws [] (skip_ws l) = split_ws [] l"
  by (induction l) auto

lemma split_ws_scan:
  "scan_token l = (tok, rest) \<Longrightarrow>
   split_ws cur l =
     (case rest of
        [] \<Rightarrow> (if cur @ tok = [] then [] else [cur @ tok])
      | c # rest' \<Rightarrow>
          (if cur @ tok = [] then split_ws [] rest' else (cur @ tok) # split_ws [] rest'))"
proof (induction l arbitrary: cur tok)
  case Nil
  then show ?case by simp
next
  case (Cons a l)
  show ?case
  proof (cases "is_ws a")
    case True
    with Cons.prems show ?thesis by auto
  next
    case False
    obtain tok' where st: "scan_token l = (tok', rest)" and tok: "tok = a # tok'"
      using Cons.prems False by (auto split: prod.splits)
    from Cons.IH [OF st, of "cur @ [a]"] False tok show ?thesis
      by (simp split: list.splits)
  qed
qed

lemma scan_token_nonempty: "l \<noteq> [] \<Longrightarrow> \<not> is_ws (hd l) \<Longrightarrow> fst (scan_token l) \<noteq> []"
  by (cases l) (auto split: prod.splits)

lemma skip_ws_hd: "skip_ws l \<noteq> [] \<Longrightarrow> \<not> is_ws (hd (skip_ws l))"
  by (induction l) auto

lemma parse_loop_runs:
  "line = [] \<or> \<not> is_ws (hd line) \<Longrightarrow>
   parse_loop line argv max_args =
     argv @ take (nat (max_args - 1) - length argv) (split_ws [] line)"
proof (induction line argv max_args rule: parse_loop.induct)
  case (1 line argv max_args)
  show ?case
  proof (cases "line \<noteq> [] \<and> int (length argv) < max_args - 1")
    case False
    then show ?thesis
      by (subst parse_loop.simps) auto
  next
    case True
    obtain tok rest where st: "scan_token line = (tok, rest)"
      by (cases "scan_token line")
    from True "1.prems" have tok: "tok \<noteq> []"
      using scan_token_nonempty [of line] st by simp
    from True have room:
      "nat (max_args - 1) - length argv = Suc (nat (max_args - 1) - length argv - 1)"
      by linarith
    show ?thesis
    proof (cases rest)
      case Nil
      with st True tok room show ?thesis
        by (subst parse_loop.simps) (simp add: split_ws_scan [OF st, of "[]"])
    next
      case (Cons c rest')
      have IH: "parse_loop (skip_ws rest') (argv @ [tok]) max_args =
          (argv @ [tok]) @
          take (nat (max_args - 1) - length (argv @ [tok])) (split_ws [] (skip_ws rest'))"
        using "1.IH" [OF True st [symmetric] Cons] skip_ws_hd [of rest'] by blast
      have "parse_loop line argv max_args = parse_loop (skip_ws rest') (argv @ [tok]) max_args"
        using True st Cons by (subst parse_loop.simps) simp
      also note IH
      finally show ?thesis
        using tok room Cons by (simp add: split_ws_scan [OF st, of "[]"] split_ws_skip)
    qed
  qed
qed

lemma parse_line_runs:
  "parse_line line max_args = take (nat (max_args - 1)) (nonws_runs line)"
  using parse_loop_runs [of "skip_ws line" "[]" max_args] skip_ws_hd [of line]
  by (auto simp: parse_line_def nonws_runs_def split_ws_skip)

lemma split_ws_tokens:
  "t \<in> set (split_ws cur l) \<Longrightarrow> list_all (\<lambda>c. \<not> is_ws c) cur \<Longrightarrow>
   t \<noteq> [] \<and> list_all (\<lambda>c. \<not> is_ws c) t"
proof (induction l arbitrary: cur)
  case Nil
  then show ?case
    by (cases "cur = []") simp_all
next
  case (Cons c cs)
  show ?case
  proof (cases "is_ws c")
    case True
    show ?thesis
    proof (cases "t = cur \<and> cur \<noteq> []")
      case True
      with Cons.prems show ?thesis by simp
    next
      case False
      with Cons.prems \<open>is_ws c\<close> have "t \<in> set (split_ws [] cs)"
        by (cases "cur = []") auto
      then show ?thesis
        by (rule Cons.IH) simp
    qed
  next
    case False
    with Cons.prems have "t \<in> set (split_ws (cur @ [c]) cs)"
      by simp
    moreover have "list_all (\<lambda>c. \<not> is_ws c) (cur @ [c])"
      using Cons.prems False by simp
    ultimately show ?thesis
      by (rule Cons.IH)
  qed
qed

lemma nonws_runs_tokens:
  "t \<in> set (nonws_runs l) \<Longrightarrow> t \<noteq> [] \<and> list_all (\<lambda>c. \<not> is_ws c) t"
  using split_ws_tokens [of t "[]" l] by (simp add: nonws_runs_def)


lemma nonws_runs_blank: "starts_empty_or_ws l \<Longrightarrow> nonws_runs l = []"
proof (induction l)
  case Nil
  show ?case by (simp add: nonws_runs_def)
next
  case (Cons c l)
  from Cons.prems have "is_ws c" and "starts_empty_or_ws l"
    by (simp_all split: if_splits)
  with Cons.IH show ?case
    by (simp add: nonws_runs_def)
qed

lemma nonws_runs_sep: "is_ws c \<Longrightarrow> nonws_runs (c # l) = nonws_runs l"
  by (simp add: nonws_runs_def)

lemma split_ws_run:
  "list_all (\<lambda>c. \<not> is_ws c) t \<Longrightarrow> split_ws cur (t @ l) = split_ws (cur @ t) l"
proof (induction t arbitrary: cur)
  case Nil
  show ?case by simp
next
  case (Cons a t)
  then have "split_ws (cur @ [a]) (t @ l) = split_ws ((cur @ [a]) @ t) l"
    by simp
  with Cons.prems show ?case
    by simp
qed

lemma nonws_runs_token:
  assumes "t \<noteq> []" and "list_all (\<lambda>c. \<not> is_ws c) t" and "is_ws s"
  shows "nonws_runs (t @ s # l) = t # nonws_runs l"
  using assms by (simp add: nonws_runs_def split_ws_run)

lemma nonws_runs_last:
  assumes "t \<noteq> []" and "list_all (\<lambda>c. \<not> is_ws c) t"
  shows "nonws_runs t = [t]"
  using assms split_ws_run [of t "[]" "[]"] by (simp add: nonws_runs_def)

text \<open>The tokens hold the characters of the line that are no separators, in order.\<close>

lemma concat_split_ws: "concat (split_ws cur l) = cur @ filter (\<lambda>c. \<not> is_ws c) l"
  by (induction l arbitrary: cur) simp_all

lemma nonws_runs_concat: "concat (nonws_runs l) = filter (\<lambda>c. \<not> is_ws c) l"
  by (simp add: nonws_runs_def concat_split_ws)

lemma nonws_runs_words:
  assumes "t \<noteq> []" and "list_all (\<lambda>c. \<not> is_ws c) t" and "is_ws s"
  shows "nonws_runs (concat (replicate n (t @ [s]))) = replicate n t"
proof (induction n)
  case 0
  show ?case by (simp add: nonws_runs_def)
next
  case (Suc n)
  have "nonws_runs (concat (replicate (Suc n) (t @ [s]))) =
      nonws_runs (t @ s # concat (replicate n (t @ [s])))"
    by simp
  also have "\<dots> = t # nonws_runs (concat (replicate n (t @ [s])))"
    using assms by (rule nonws_runs_token)
  finally show ?case
    by (simp add: Suc.IH)
qed

lemma parse_line_blank: "starts_empty_or_ws l \<Longrightarrow> parse_line l max_args = []"
  by (simp add: parse_line_runs nonws_runs_blank)

lemma nonws_runs_words_line: "nonws_runs (words_line n) = replicate n ''x''"
proof -
  have "nonws_runs (concat (replicate n (''x'' @ [CHR '' '']))) = replicate n ''x''"
    by (rule nonws_runs_words) (simp_all add: is_ws_def)
  then show ?thesis
    by (simp add: words_line_def)
qed

lemma length_parse_line_words_line: "length (parse_line (words_line n) MAX_ARGS) = min n 127"
  by (simp add: parse_line_runs nonws_runs_words_line MAX_ARGS_def)

lemma parse_line_ls: "parse_line ''  ls   -l  '' MAX_ARGS = [''ls'', ''-l'']"
  by (simp add: parse_line_runs MAX_ARGS_def nonws_runs_def is_ws_def)



subsection \<open>Claim C3: the tokens of a line\<close>

text \<open>
  C3 (as amended). For every input line, tokenization returns the leading maximal runs
  of non-separator characters (separators: space, tab, carriage return, newline), in
  order and at most 127 of them; these are all the runs of the line, exactly, when
  the line has at most 127. No token is empty and no token contains a separator.
  Tokenizing \<^verbatim>\<open>"  ls   -l  "\<close> yields \<^verbatim>\<open>["ls", "-l"]\<close>. For every empty or
  whitespace-only line zero tokens are produced and the loop body continues with the
  state unchanged: nothing is dispatched.
\<close>

theorem parse_line_tokens:
  "parse_line line MAX_ARGS = take 127 (nonws_runs line)
   \<and> (length (nonws_runs line) \<le> 127 \<longrightarrow> parse_line line MAX_ARGS = nonws_runs line)
   \<and> list_all (\<lambda>t. t \<noteq> [] \<and> list_all (\<lambda>c. \<not> is_ws c) t) (parse_line line MAX_ARGS)
   \<and> parse_line ''  ls   -l  '' MAX_ARGS = [''ls'', ''-l'']
   \<and> (starts_empty_or_ws line \<longrightarrow>
        parse_line line MAX_ARGS = [] \<and> process_line os line w = (Continue, w))"
proof -
  have runs: "parse_line line MAX_ARGS = take 127 (nonws_runs line)"
    by (simp add: parse_line_runs MAX_ARGS_def)
  have "\<forall>t\<in>set (take 127 (nonws_runs line)). t \<noteq> [] \<and> list_all (\<lambda>c. \<not> is_ws c) t"
    using nonws_runs_tokens [of _ line] by (blast dest: in_set_takeD)
  then have tokens:
    "list_all (\<lambda>t. t \<noteq> [] \<and> list_all (\<lambda>c. \<not> is_ws c) t) (parse_line line MAX_ARGS)"
    unfolding runs by (simp only: list_all_iff)
  have blank: "starts_empty_or_ws line \<longrightarrow>
      parse_line line MAX_ARGS = [] \<and> process_line os line w = (Continue, w)"
    by (simp add: parse_line_blank process_line_def)
  from runs tokens parse_line_ls blank show ?thesis
    by simp
qed

text \<open>
  The theorem at the line \<^verbatim>\<open>cd /tmp\<close>, which has two runs, and at the line of one
  space.
\<close>

theorem parse_line_tokens_witness:
  "length (nonws_runs ''cd /tmp'') \<le> 127
   \<and> parse_line ''cd /tmp'' MAX_ARGS = [''cd'', ''/tmp'']
   \<and> starts_empty_or_ws '' ''
   \<and> parse_line '' '' MAX_ARGS = []
   \<and> process_line sample_os '' '' (sample_world []) = (Continue, sample_world [])"
proof -
  have runs: "nonws_runs ''cd /tmp'' = [''cd'', ''/tmp'']"
    by (simp add: nonws_runs_def is_ws_def)
  have blank: "starts_empty_or_ws '' ''"
    by (simp add: is_ws_def)
  from parse_line_tokens [of "''cd /tmp''" sample_os "sample_world []"] runs
  have a: "parse_line ''cd /tmp'' MAX_ARGS = [''cd'', ''/tmp'']"
    by simp
  from parse_line_tokens [of "'' ''" sample_os "sample_world []"] blank
  have b: "parse_line '' '' MAX_ARGS = [] \<and>
      process_line sample_os '' '' (sample_world []) = (Continue, sample_world [])"
    by blast
  from a b runs blank show ?thesis
    by simp
qed

text \<open>
  C3 as stated, for every input line, fails on a line of 130 words: the line has 130
  runs and \<^verbatim>\<open>parse_line\<close> returns 127 tokens.
\<close>

theorem parse_line_all_runs_counterexample:
  "length (nonws_runs (words_line 130)) = 130
   \<and> length (parse_line (words_line 130) MAX_ARGS) = 127
   \<and> parse_line (words_line 130) MAX_ARGS \<noteq> nonws_runs (words_line 130)"
proof -
  have runs: "length (nonws_runs (words_line 130)) = 130"
    by (simp only: nonws_runs_words_line length_replicate)
  have len: "length (parse_line (words_line 130) MAX_ARGS) = 127"
    by (simp add: length_parse_line_words_line)
  have "parse_line (words_line 130) MAX_ARGS \<noteq> nonws_runs (words_line 130)"
  proof
    assume "parse_line (words_line 130) MAX_ARGS = nonws_runs (words_line 130)"
    then have "length (parse_line (words_line 130) MAX_ARGS) = length (nonws_runs (words_line 130))"
      by (rule arg_cong)
    with runs len show False
      by simp
  qed
  with runs len show ?thesis
    by blast
qed

subsection \<open>Claim C7: the token limit\<close>

text \<open>
  C7 (as amended). The tokenizer enforces a maximum token count of 127, which is
  \<open>MAX_ARGS - 1\<close>: for every input line at most 127 tokens are produced, they are the
  leading 127 runs of the line, and a line with more than 127 words is cut to exactly
  its first 127 words. \<^verbatim>\<open>parse_line\<close> is a total function: there is no failure.
\<close>

theorem parse_line_truncates:
  "length (parse_line line MAX_ARGS) \<le> 127
   \<and> parse_line line MAX_ARGS = take 127 (nonws_runs line)
   \<and> (127 < length (nonws_runs line) \<longrightarrow> length (parse_line line MAX_ARGS) = 127)"
  by (simp add: parse_line_runs MAX_ARGS_def)

text \<open>The theorem at a line of 200 words.\<close>

theorem parse_line_truncates_witness:
  "127 < length (nonws_runs (words_line 200))
   \<and> length (parse_line (words_line 200) MAX_ARGS) = 127"
proof -
  have runs: "length (nonws_runs (words_line 200)) = 200"
    by (simp only: nonws_runs_words_line length_replicate)
  then have "127 < length (nonws_runs (words_line 200))"
    by simp
  with parse_line_truncates [of "words_line 200"] show ?thesis
    by blast
qed

text \<open>
  C7 as stated, with a maximum of 128, fails on a line of exactly 128 words: it is not
  longer than the stated maximum, and still only 127 tokens are produced, not its
  first 128 runs.
\<close>

theorem parse_line_max_128_counterexample:
  "length (nonws_runs (words_line 128)) = 128
   \<and> length (parse_line (words_line 128) MAX_ARGS) = 127
   \<and> parse_line (words_line 128) MAX_ARGS \<noteq> take 128 (nonws_runs (words_line 128))"
proof -
  have runs: "length (nonws_runs (words_line 128)) = 128"
    by (simp only: nonws_runs_words_line length_replicate)
  have len: "length (parse_line (words_line 128) MAX_ARGS) = 127"
    by (simp add: length_parse_line_words_line)
  have "parse_line (words_line 128) MAX_ARGS \<noteq> take 128 (nonws_runs (words_line 128))"
  proof
    assume "parse_line (words_line 128) MAX_ARGS = take 128 (nonws_runs (words_line 128))"
    then have "length (parse_line (words_line 128) MAX_ARGS) =
        length (take 128 (nonws_runs (words_line 128)))"
      by (rule arg_cong)
    with runs len show False
      by simp
  qed
  with runs len show ?thesis
    by blast
qed


section \<open>The status reporter\<close>

lemma report_status_eq:
  "report_status os status w =
     w\<lparr>out := out w @ status_message (outcome_of os status) @ ''\<newline>''\<rparr>"
  by (simp add: report_status_def outcome_of_def write_int_decimal write_str_def
      write_chr_def write_fd_def STDOUT_FILENO_def)

lemma decimal_digit: "n < 10 \<Longrightarrow> decimal n = [char_of (48 + n)]"
  by (simp add: decimal.simps)

subsection \<open>Claim C2: one message for every outcome\<close>

text \<open>
  C2. The status reporter maps every termination outcome to exactly one message on
  standard output, followed by a newline: \<open>ExitedNormally code\<close> to
  \<^verbatim>\<open>Command executed successfully. Return code: \<close> and the decimal code,
  \<open>KilledBySignal n\<close> to \<^verbatim>\<open>Command terminated by signal: \<close> and the decimal \<open>n\<close>, and
  any other outcome to \<^verbatim>\<open>Command finished. (unknown status)\<close>. Nothing else of the
  state changes, and the three outcomes are the only ones.
\<close>

theorem report_status_message:
  "report_status os status w =
     w\<lparr>out := out w @ status_message (outcome_of os status) @ ''\<newline>''\<rparr>"
  by (rule report_status_eq)

text \<open>
  The theorem on the sample system: exit code 3, signal 9, and a status that is neither
  an exit nor a signal.
\<close>

theorem report_status_message_witness:
  "out (report_status sample_os 768 (sample_world [])) =
     ''Command executed successfully. Return code: 3\<newline>''
   \<and> out (report_status sample_os 9 (sample_world [])) =
     ''Command terminated by signal: 9\<newline>''
   \<and> out (report_status sample_os 127 (sample_world [])) =
     ''Command finished. (unknown status)\<newline>''"
proof -
  have o1: "outcome_of sample_os 768 = ExitedNormally 3"
    by (simp add: outcome_of_def sample_os_def)
  have o2: "outcome_of sample_os 9 = KilledBySignal 9"
    by (simp add: outcome_of_def sample_os_def)
  have o3: "outcome_of sample_os 127 = Unknown"
    by (simp add: outcome_of_def sample_os_def)
  have d: "decimal_int 3 = ''3''" "decimal_int 9 = ''9''"
    by (simp_all add: decimal_int_def decimal_digit char_of_def bit_Suc_0_iff)
  from report_status_message [of sample_os 768 "sample_world []"]
       report_status_message [of sample_os 9 "sample_world []"]
       report_status_message [of sample_os 127 "sample_world []"]
  show ?thesis
    by (simp add: o1 o2 o3 d sample_world_def)
qed

section \<open>The resolver\<close>

lemma length_long_name [simp]: "length (long_name n base) = 2 * n + length base"
  by (induction n) (simp_all add: long_name_def)

lemma build_path_fits:
  "build_path PATH_BUF prefix cmd =
     (if fits_path_buf prefix cmd then Some (prefix @ ''/'' @ cmd) else None)"
  by (auto simp: build_path_def fits_path_buf_def Let_def)

lemma find_executable_bin:
  "HOME os = None \<or> HOME os = Some [] \<or> (\<exists>h. HOME os = Some h \<and> \<not> fits_path_buf h cmd) \<Longrightarrow>
   find_executable os cmd PATH_BUF w = bin_candidate os cmd w"
  by (auto simp: find_executable_def bin_candidate_def build_path_fits)

lemma find_executable_home_hit:
  "HOME os = Some h \<Longrightarrow> h \<noteq> [] \<Longrightarrow> fits_path_buf h cmd \<Longrightarrow>
   access_X_OK os w (h @ ''/'' @ cmd) \<Longrightarrow>
   find_executable os cmd PATH_BUF w =
     (Some (h @ ''/'' @ cmd), log_call (Access (h @ ''/'' @ cmd)) w)"
  by (simp add: find_executable_def build_path_fits)

lemma find_executable_home_miss:
  "HOME os = Some h \<Longrightarrow> h \<noteq> [] \<Longrightarrow> fits_path_buf h cmd \<Longrightarrow>
   \<not> access_X_OK os w (h @ ''/'' @ cmd) \<Longrightarrow>
   find_executable os cmd PATH_BUF w =
     bin_candidate os cmd (log_call (Access (h @ ''/'' @ cmd)) w)"
  by (simp add: find_executable_def bin_candidate_def build_path_fits)

lemma fits_short [simp]:
  "fits_path_buf ''/home/u'' ''ls''" "fits_path_buf ''/home/u'' ''hello''"
  "fits_path_buf ''/bin'' ''ls''"
  by (simp_all add: fits_path_buf_def PATH_BUF_def)


subsection \<open>Claim C1: the search order\<close>

text \<open>
  \<^verbatim>\<open>build_path\<close> refuses a candidate of 4096 characters or more. The operating
  system refuses such a path as well: \<^verbatim>\<open>access\<close> fails with \<^verbatim>\<open>ENAMETOOLONG\<close> for
  every path that, with its terminator, does not fit into \<^verbatim>\<open>PATH_MAX\<close> = 4096 bytes,
  the size of \<open>PATH_BUF\<close>. Under this fact a candidate that is skipped is one that is
  not executable.
\<close>

lemma not_fits_long: "\<not> fits_path_buf prefix cmd \<longleftrightarrow> PATH_BUF \<le> length (prefix @ ''/'' @ cmd)"
  by (auto simp: fits_path_buf_def)

lemma fst_bin_candidate:
  assumes "\<forall>p. PATH_BUF \<le> length p \<longrightarrow> \<not> access_X_OK os w p"
    and "access_X_OK os w' (''/bin/'' @ cmd) = access_X_OK os w (''/bin/'' @ cmd)"
  shows "fst (bin_candidate os cmd w') =
    (if access_X_OK os w (''/bin/'' @ cmd) then Some (''/bin/'' @ cmd) else None)"
proof (cases "fits_path_buf ''/bin'' cmd")
  case True
  with assms(2) show ?thesis
    by (simp add: bin_candidate_def)
next
  case False
  then have "PATH_BUF \<le> length (''/bin/'' @ cmd)"
    by (simp add: not_fits_long)
  with assms(1) have "\<not> access_X_OK os w (''/bin/'' @ cmd)"
    by blast
  with False show ?thesis
    by (simp add: bin_candidate_def)
qed

lemma find_executable_search:
  assumes long: "\<forall>p. PATH_BUF \<le> length p \<longrightarrow> \<not> access_X_OK os w p"
    and same: "\<forall>p. access_X_OK os (log_call (Access p) w) (''/bin/'' @ cmd) =
      access_X_OK os w (''/bin/'' @ cmd)"
  shows "fst (find_executable os cmd PATH_BUF w) = search_order (HOME os) (access_X_OK os w) cmd"
proof (cases "HOME os = None \<or> HOME os = Some []")
  case True
  then have "find_executable os cmd PATH_BUF w = bin_candidate os cmd w"
    by (intro find_executable_bin) blast
  moreover have "fst (bin_candidate os cmd w) =
      (if access_X_OK os w (''/bin/'' @ cmd) then Some (''/bin/'' @ cmd) else None)"
    using long by (rule fst_bin_candidate) simp
  ultimately show ?thesis
    using True by (auto simp: search_order_def)
next
  case False
  then obtain h where h: "HOME os = Some h" "h \<noteq> []"
    by (cases "HOME os") auto
  let ?hp = "h @ ''/'' @ cmd"
  show ?thesis
  proof (cases "fits_path_buf h cmd")
    case fits: True
    show ?thesis
    proof (cases "access_X_OK os w ?hp")
      case True
      with find_executable_home_hit [OF h fits True] h show ?thesis
        by (simp add: search_order_def)
    next
      case False
      have "fst (bin_candidate os cmd (log_call (Access ?hp) w)) =
          (if access_X_OK os w (''/bin/'' @ cmd) then Some (''/bin/'' @ cmd) else None)"
        using long same by (intro fst_bin_candidate) auto
      with find_executable_home_miss [OF h fits False] h False show ?thesis
        by (simp add: search_order_def)
    qed
  next
    case nofit: False
    then have "PATH_BUF \<le> length ?hp"
      by (simp add: not_fits_long)
    with long have no: "\<not> access_X_OK os w ?hp"
      by blast
    have "find_executable os cmd PATH_BUF w = bin_candidate os cmd w"
      using h nofit by (intro find_executable_bin) blast
    moreover have "fst (bin_candidate os cmd w) =
        (if access_X_OK os w (''/bin/'' @ cmd) then Some (''/bin/'' @ cmd) else None)"
      using long by (rule fst_bin_candidate) simp
    ultimately show ?thesis
      using h no by (simp add: search_order_def)
  qed
qed

lemma find_executable_home_first:
  assumes long: "\<forall>p. PATH_BUF \<le> length p \<longrightarrow> \<not> access_X_OK os w p"
    and h: "HOME os = Some h" "h \<noteq> []" and x: "access_X_OK os w (h @ ''/'' @ cmd)"
  shows "find_executable os cmd PATH_BUF w =
    (Some (h @ ''/'' @ cmd), log_call (Access (h @ ''/'' @ cmd)) w)"
proof -
  have "fits_path_buf h cmd"
    using long x not_fits_long [of h cmd] by blast
  with h x show ?thesis
    by (intro find_executable_home_hit)
qed

lemma sample_os_long: "\<forall>p. PATH_BUF \<le> length p \<longrightarrow> \<not> access_X_OK sample_os w p"
  by (auto simp: sample_os_def PATH_BUF_def)

lemma both_ls_os_long: "\<forall>p. PATH_BUF \<le> length p \<longrightarrow> \<not> access_X_OK both_ls_os w p"
  by (auto simp: both_ls_os_def PATH_BUF_def)

text \<open>
  C1. Executable resolution follows a fixed two-step search order with first match
  winning: for every command name, the candidate \<^verbatim>\<open>${HOME}/<cmd>\<close> comes first, but
  only when \<^verbatim>\<open>HOME\<close> is set and non-empty, then \<^verbatim>\<open>/bin/<cmd>\<close>. A candidate
  qualifies only if it is executable. If both candidates are executable the
  \<^verbatim>\<open>HOME\<close> one is chosen, and \<^verbatim>\<open>/bin/<cmd>\<close> is not even tried. If \<^verbatim>\<open>HOME\<close> is
  unset or empty only the \<^verbatim>\<open>/bin\<close> candidate is attempted. NotFound is returned
  exactly when neither qualifies. The two hypotheses are facts of the operating
  system: \<^verbatim>\<open>access\<close> refuses every path of 4096 characters or more, and its answer
  for \<^verbatim>\<open>/bin/<cmd>\<close> is the same before and after the check of the first candidate.
\<close>

theorem find_executable_order:
  "(\<forall>p. PATH_BUF \<le> length p \<longrightarrow> \<not> access_X_OK os w p)
   \<and> (\<forall>p. access_X_OK os (log_call (Access p) w) (''/bin/'' @ cmd) =
          access_X_OK os w (''/bin/'' @ cmd))
   \<longrightarrow>
     fst (find_executable os cmd PATH_BUF w) = search_order (HOME os) (access_X_OK os w) cmd
     \<and> (HOME os = Some h \<and> h \<noteq> [] \<and> access_X_OK os w (h @ ''/'' @ cmd) \<longrightarrow>
          find_executable os cmd PATH_BUF w =
            (Some (h @ ''/'' @ cmd), log_call (Access (h @ ''/'' @ cmd)) w))
     \<and> (HOME os = None \<or> HOME os = Some [] \<longrightarrow>
          find_executable os cmd PATH_BUF w = bin_candidate os cmd w
          \<and> calls (snd (find_executable os cmd PATH_BUF w)) =
              calls w @ (if fits_path_buf ''/bin'' cmd then [Access (''/bin/'' @ cmd)] else [])
          \<and> fst (find_executable os cmd PATH_BUF w) =
              (if access_X_OK os w (''/bin/'' @ cmd) then Some (''/bin/'' @ cmd) else None))
     \<and> (fst (find_executable os cmd PATH_BUF w) = Some path \<longrightarrow> access_X_OK os w path)
     \<and> (fst (find_executable os cmd PATH_BUF w) = None \<longleftrightarrow>
          \<not> (HOME os \<noteq> None \<and> the (HOME os) \<noteq> [] \<and> access_X_OK os w (the (HOME os) @ ''/'' @ cmd))
          \<and> \<not> access_X_OK os w (''/bin/'' @ cmd))"
proof
  assume a: "(\<forall>p. PATH_BUF \<le> length p \<longrightarrow> \<not> access_X_OK os w p)
   \<and> (\<forall>p. access_X_OK os (log_call (Access p) w) (''/bin/'' @ cmd) =
          access_X_OK os w (''/bin/'' @ cmd))"
  then have long: "\<forall>p. PATH_BUF \<le> length p \<longrightarrow> \<not> access_X_OK os w p"
    and same: "\<forall>p. access_X_OK os (log_call (Access p) w) (''/bin/'' @ cmd) =
          access_X_OK os w (''/bin/'' @ cmd)"
    by simp_all
  have s: "fst (find_executable os cmd PATH_BUF w) = search_order (HOME os) (access_X_OK os w) cmd"
    using long same by (rule find_executable_search)
  have hf: "HOME os = Some h \<and> h \<noteq> [] \<and> access_X_OK os w (h @ ''/'' @ cmd) \<longrightarrow>
          find_executable os cmd PATH_BUF w =
            (Some (h @ ''/'' @ cmd), log_call (Access (h @ ''/'' @ cmd)) w)"
    using find_executable_home_first [OF long, of h cmd] by blast
  have b: "find_executable os cmd PATH_BUF w = bin_candidate os cmd w
          \<and> calls (snd (find_executable os cmd PATH_BUF w)) =
              calls w @ (if fits_path_buf ''/bin'' cmd then [Access (''/bin/'' @ cmd)] else [])
          \<and> fst (find_executable os cmd PATH_BUF w) =
              (if access_X_OK os w (''/bin/'' @ cmd) then Some (''/bin/'' @ cmd) else None)"
    if "HOME os = None \<or> HOME os = Some []"
  proof -
    have fe: "find_executable os cmd PATH_BUF w = bin_candidate os cmd w"
      using that by (intro find_executable_bin) blast
    have "fst (bin_candidate os cmd w) =
        (if access_X_OK os w (''/bin/'' @ cmd) then Some (''/bin/'' @ cmd) else None)"
      using long by (rule fst_bin_candidate) simp
    with fe show ?thesis
      by (simp add: bin_candidate_def log_call_def)
  qed
  have q: "fst (find_executable os cmd PATH_BUF w) = Some path \<longrightarrow> access_X_OK os w path"
    unfolding s by (auto simp: search_order_def split: if_splits)
  have n: "fst (find_executable os cmd PATH_BUF w) = None \<longleftrightarrow>
          \<not> (HOME os \<noteq> None \<and> the (HOME os) \<noteq> [] \<and> access_X_OK os w (the (HOME os) @ ''/'' @ cmd))
          \<and> \<not> access_X_OK os w (''/bin/'' @ cmd)"
    unfolding s by (simp add: search_order_def)
  from s hf b q n show "fst (find_executable os cmd PATH_BUF w) = search_order (HOME os) (access_X_OK os w) cmd
     \<and> (HOME os = Some h \<and> h \<noteq> [] \<and> access_X_OK os w (h @ ''/'' @ cmd) \<longrightarrow>
          find_executable os cmd PATH_BUF w =
            (Some (h @ ''/'' @ cmd), log_call (Access (h @ ''/'' @ cmd)) w))
     \<and> (HOME os = None \<or> HOME os = Some [] \<longrightarrow>
          find_executable os cmd PATH_BUF w = bin_candidate os cmd w
          \<and> calls (snd (find_executable os cmd PATH_BUF w)) =
              calls w @ (if fits_path_buf ''/bin'' cmd then [Access (''/bin/'' @ cmd)] else [])
          \<and> fst (find_executable os cmd PATH_BUF w) =
              (if access_X_OK os w (''/bin/'' @ cmd) then Some (''/bin/'' @ cmd) else None))
     \<and> (fst (find_executable os cmd PATH_BUF w) = Some path \<longrightarrow> access_X_OK os w path)
     \<and> (fst (find_executable os cmd PATH_BUF w) = None \<longleftrightarrow>
          \<not> (HOME os \<noteq> None \<and> the (HOME os) \<noteq> [] \<and> access_X_OK os w (the (HOME os) @ ''/'' @ cmd))
          \<and> \<not> access_X_OK os w (''/bin/'' @ cmd))"
    by blast
qed

text \<open>
  The theorem on the sample system: a hit in \<^verbatim>\<open>HOME\<close>; both candidates executable;
  a miss in \<^verbatim>\<open>HOME\<close> and a hit in \<^verbatim>\<open>/bin\<close>; \<^verbatim>\<open>HOME\<close> unset; \<^verbatim>\<open>HOME\<close> empty;
  no candidate executable.
\<close>

theorem find_executable_order_witness:
  "find_executable sample_os ''hello'' PATH_BUF (sample_world []) =
       (Some ''/home/u/hello'', log_call (Access ''/home/u/hello'') (sample_world []))
   \<and> access_X_OK both_ls_os (sample_world []) ''/home/u/ls''
   \<and> access_X_OK both_ls_os (sample_world []) ''/bin/ls''
   \<and> find_executable both_ls_os ''ls'' PATH_BUF (sample_world []) =
       (Some ''/home/u/ls'', log_call (Access ''/home/u/ls'') (sample_world []))
   \<and> fst (find_executable sample_os ''ls'' PATH_BUF (sample_world [])) = Some ''/bin/ls''
   \<and> find_executable (sample_os\<lparr>HOME := None\<rparr>) ''ls'' PATH_BUF (sample_world []) =
       (Some ''/bin/ls'', log_call (Access ''/bin/ls'') (sample_world []))
   \<and> fst (find_executable (sample_os\<lparr>HOME := Some []\<rparr>) ''ls'' PATH_BUF (sample_world [])) =
       Some ''/bin/ls''
   \<and> fst (find_executable sample_os ''frobnicate'' PATH_BUF (sample_world [])) = None"
proof -
  let ?w = "sample_world []"
  have long: "\<forall>p. PATH_BUF \<le> length p \<longrightarrow> \<not> access_X_OK (sample_os\<lparr>HOME := x\<rparr>) ?w p" for x
    using sample_os_long [of ?w] by simp
  have same: "\<forall>p. access_X_OK (sample_os\<lparr>HOME := x\<rparr>) (log_call (Access p) ?w) (''/bin/'' @ c) =
      access_X_OK (sample_os\<lparr>HOME := x\<rparr>) ?w (''/bin/'' @ c)" for x c
    by (simp add: sample_os_def)
  have sameb: "\<forall>p. access_X_OK both_ls_os (log_call (Access p) ?w) (''/bin/'' @ c) =
      access_X_OK both_ls_os ?w (''/bin/'' @ c)" for c
    by (simp add: both_ls_os_def)
  have upd: "sample_os\<lparr>HOME := Some ''/home/u''\<rparr> = sample_os"
    by (simp add: sample_os_def)
  note S = find_executable_order [THEN mp, OF conjI [OF long same]]
  note B = find_executable_order [THEN mp, OF conjI [OF both_ls_os_long sameb]]
  have home: "HOME sample_os = Some ''/home/u''" "HOME both_ls_os = Some ''/home/u''"
    by (simp_all add: sample_os_def both_ls_os_def)
  have x: "access_X_OK both_ls_os ?w ''/home/u/ls''" "access_X_OK both_ls_os ?w ''/bin/ls''"
    by (simp_all add: both_ls_os_def)
  have xs: "access_X_OK sample_os ?w ''/home/u/hello''" "access_X_OK sample_os ?w ''/bin/ls''"
    "\<not> access_X_OK sample_os ?w ''/home/u/ls''" "\<not> access_X_OK sample_os ?w ''/home/u/frobnicate''"
    "\<not> access_X_OK sample_os ?w ''/bin/frobnicate''"
    by (simp_all add: sample_os_def)
  have 1: "find_executable sample_os ''hello'' PATH_BUF ?w =
      (Some ''/home/u/hello'', log_call (Access ''/home/u/hello'') ?w)"
    using S [of "Some ''/home/u''" "''hello''" "''/home/u''", THEN conjunct2, THEN conjunct1]
      home xs by (simp add: upd)
  have 2: "find_executable both_ls_os ''ls'' PATH_BUF ?w =
      (Some ''/home/u/ls'', log_call (Access ''/home/u/ls'') ?w)"
    using B [of "''ls''" "''/home/u''", THEN conjunct2, THEN conjunct1] home x by simp
  have 3: "fst (find_executable sample_os ''ls'' PATH_BUF ?w) = Some ''/bin/ls''"
    using S [of "Some ''/home/u''" "''ls''", THEN conjunct1] home xs
    by (simp add: upd search_order_def)
  have 4: "find_executable (sample_os\<lparr>HOME := None\<rparr>) ''ls'' PATH_BUF ?w =
      (Some ''/bin/ls'', log_call (Access ''/bin/ls'') ?w)"
    using S [of None "''ls''", THEN conjunct2, THEN conjunct2, THEN conjunct1] xs
    by (simp add: bin_candidate_def)
  have 5: "fst (find_executable (sample_os\<lparr>HOME := Some []\<rparr>) ''ls'' PATH_BUF ?w) = Some ''/bin/ls''"
    using S [of "Some []" "''ls''", THEN conjunct1] xs
    by (simp add: search_order_def)
  have 6: "fst (find_executable sample_os ''frobnicate'' PATH_BUF ?w) = None"
    using S [of "Some ''/home/u''" "''frobnicate''", THEN conjunct1] home xs
    by (simp add: upd search_order_def)
  from 1 x 2 3 4 5 6 show ?thesis
    by (simp only: simp_thms)
qed

section \<open>Unknown commands\<close>

lemma print_unknown_eq:
  "print_unknown cmd w = w\<lparr>err := err w @ ''['' @ cmd @ '']: Unknown Command\<newline>''\<rparr>"
  by (simp add: print_unknown_def write_str_def write_chr_def write_fd_def
      STDERR_FILENO_def STDOUT_FILENO_def)

lemma execute_external_unknown:
  "find_executable os cmd PATH_BUF w = (None, w1) \<Longrightarrow>
   execute_external os (cmd # args) w =
     w1\<lparr>err := err w1 @ ''['' @ cmd @ '']: Unknown Command\<newline>''\<rparr>"
  by (simp add: print_unknown_eq)

lemma spawned_of_append: "spawned_of (xs @ ys) = spawned_of xs @ spawned_of ys"
  by (induction xs rule: spawned_of.induct) simp_all

lemma find_executable_frame:
  "\<exists>accs. snd (find_executable os cmd sz w) = w\<lparr>calls := calls w @ accs\<rparr> \<and> spawned_of accs = []"
proof -
  let ?r = "snd (find_executable os cmd sz w)"
  have "?r = w\<lparr>calls := calls w @ []\<rparr>
      \<or> (\<exists>p. ?r = w\<lparr>calls := calls w @ [Access p]\<rparr>)
      \<or> (\<exists>p q. ?r = w\<lparr>calls := calls w @ [Access p, Access q]\<rparr>)"
    by (auto simp: find_executable_def log_call_def Let_def split: option.splits)
  then show ?thesis
    by (elim disjE exE) (rule exI, erule conjI, simp)+
qed

lemma find_executable_fields:
  "err (snd (find_executable os cmd sz w)) = err w"
  "out (snd (find_executable os cmd sz w)) = out w"
  "cwd (snd (find_executable os cmd sz w)) = cwd w"
  "spawned (snd (find_executable os cmd sz w)) = spawned w"
  using find_executable_frame [of os cmd sz w]
  by (auto simp: spawned_def spawned_of_append)

lemma spawned_updates [simp]:
  "spawned (w\<lparr>err := e\<rparr>) = spawned w"
  "spawned (w\<lparr>out := s\<rparr>) = spawned w"
  "spawned (w\<lparr>cwd := d\<rparr>) = spawned w"
  by (simp_all add: spawned_def)

lemma parse_line_nonblank: "parse_line line max_args = cmd # args \<Longrightarrow> \<not> starts_empty_or_ws line"
  using parse_line_blank [of line max_args] by auto

lemma process_line_external:
  assumes "parse_line line MAX_ARGS = cmd # args" and "cmd \<noteq> ''exit''" and "cmd \<noteq> ''cd''"
  shows "process_line os line w = (Continue, execute_external os (cmd # args) w)"
  using assms parse_line_nonblank [OF assms(1)]
  by (simp add: process_line_def Let_def del: execute_external.simps)


subsection \<open>Claim C9: names too long for the path buffer\<close>

text \<open>
  C9 (as amended). For every command name so long that prefix, slash, name and
  terminator exceed the path buffer of 4096 bytes for both search candidates,
  resolution skips each of them without any error and without any \<^verbatim>\<open>access\<close> call,
  and returns NotFound, so that \<^verbatim>\<open>[<name>]: Unknown Command\<close> is reported whatever
  the file system holds. This is so in particular for any name longer than 4093
  characters. A name longer than 4090 characters is too long for \<^verbatim>\<open>/bin\<close>; the
  \<^verbatim>\<open>HOME\<close> candidate is too long when the lengths of \<^verbatim>\<open>HOME\<close> and of the name add
  up to more than 4094.
\<close>

theorem find_executable_oversize:
  "(\<not> fits_path_buf ''/bin'' cmd
      \<and> (HOME os = None \<or> HOME os = Some [] \<or> (\<exists>h. HOME os = Some h \<and> \<not> fits_path_buf h cmd))
    \<longrightarrow> find_executable os cmd PATH_BUF w = (None, w)
      \<and> execute_external os (cmd # args) w =
          w\<lparr>err := err w @ ''['' @ cmd @ '']: Unknown Command\<newline>''\<rparr>)
   \<and> (4093 < length cmd \<longrightarrow>
        \<not> fits_path_buf ''/bin'' cmd
        \<and> (HOME os = None \<or> HOME os = Some [] \<or> (\<exists>h. HOME os = Some h \<and> \<not> fits_path_buf h cmd)))
   \<and> (4090 < length cmd \<longrightarrow> \<not> fits_path_buf ''/bin'' cmd)
   \<and> (HOME os = Some h \<and> 4094 < length h + length cmd \<longrightarrow> \<not> fits_path_buf h cmd)"
proof -
  have a: "find_executable os cmd PATH_BUF w = (None, w)
      \<and> execute_external os (cmd # args) w =
          w\<lparr>err := err w @ ''['' @ cmd @ '']: Unknown Command\<newline>''\<rparr>"
    if big: "\<not> fits_path_buf ''/bin'' cmd"
      and home: "HOME os = None \<or> HOME os = Some [] \<or> (\<exists>h. HOME os = Some h \<and> \<not> fits_path_buf h cmd)"
  proof -
    have "find_executable os cmd PATH_BUF w = bin_candidate os cmd w"
      using home by (rule find_executable_bin)
    with big have fe: "find_executable os cmd PATH_BUF w = (None, w)"
      by (simp add: bin_candidate_def)
    with execute_external_unknown [OF fe, of args] show ?thesis
      by simp
  qed
  have b: "\<not> fits_path_buf ''/bin'' cmd
      \<and> (HOME os = None \<or> HOME os = Some [] \<or> (\<exists>h. HOME os = Some h \<and> \<not> fits_path_buf h cmd))"
    if "4093 < length cmd"
  proof (cases "HOME os")
    case None
    with that show ?thesis
      by (simp add: fits_path_buf_def PATH_BUF_def)
  next
    case (Some h)
    with that show ?thesis
      by (cases h) (simp_all add: fits_path_buf_def PATH_BUF_def)
  qed
  have c: "4090 < length cmd \<longrightarrow> \<not> fits_path_buf ''/bin'' cmd"
    by (simp add: fits_path_buf_def PATH_BUF_def)
  have d: "HOME os = Some h \<and> 4094 < length h + length cmd \<longrightarrow> \<not> fits_path_buf h cmd"
    by (simp add: fits_path_buf_def PATH_BUF_def)
  from a b c d show ?thesis
    by blast
qed

text \<open>The theorem at a name of 4094 characters, with every path executable.\<close>

theorem find_executable_oversize_witness:
  "4093 < length (long_name 2046 ''ls'')
   \<and> find_executable all_executable_os (long_name 2046 ''ls'') PATH_BUF (sample_world []) =
       (None, sample_world [])
   \<and> err (execute_external all_executable_os [long_name 2046 ''ls'', ''-l''] (sample_world [])) =
       ''['' @ long_name 2046 ''ls'' @ '']: Unknown Command\<newline>''
   \<and> calls (execute_external all_executable_os [long_name 2046 ''ls'', ''-l''] (sample_world [])) = []"
proof -
  have len: "4093 < length (long_name 2046 ''ls'')"
    by simp
  from find_executable_oversize
    [of "long_name 2046 ''ls''" all_executable_os "sample_world []" "[''-l'']" "[]"] len
  have "find_executable all_executable_os (long_name 2046 ''ls'') PATH_BUF (sample_world []) =
        (None, sample_world [])
      \<and> execute_external all_executable_os [long_name 2046 ''ls'', ''-l''] (sample_world []) =
        (sample_world [])\<lparr>err := err (sample_world []) @
           ''['' @ long_name 2046 ''ls'' @ '']: Unknown Command\<newline>''\<rparr>"
    by blast
  with len show ?thesis
    by (simp add: sample_world_def del: execute_external.simps)
qed

text \<open>
  C9 as stated, for any name longer than 4090 characters, fails for a name of 4091
  characters with \<^verbatim>\<open>HOME=/\<close>: the \<^verbatim>\<open>HOME\<close> candidate has 4093 characters, it fits,
  it is found executable, and no \<^verbatim>\<open>Unknown Command\<close> is reported.
\<close>

theorem find_executable_longer_than_4090_counterexample:
  "4090 < length (long_name 2044 ''cat'')
   \<and> HOME (all_executable_os\<lparr>HOME := Some ''/''\<rparr>) = Some ''/''
   \<and> find_executable (all_executable_os\<lparr>HOME := Some ''/''\<rparr>) (long_name 2044 ''cat'') PATH_BUF
        (sample_world []) =
       (Some (''//'' @ long_name 2044 ''cat''),
        log_call (Access (''//'' @ long_name 2044 ''cat'')) (sample_world []))
   \<and> err (execute_external (all_executable_os\<lparr>HOME := Some ''/''\<rparr>) [long_name 2044 ''cat'']
        (sample_world [])) = []"
proof -
  let ?os = "all_executable_os\<lparr>HOME := Some ''/''\<rparr>"
  have len: "4090 < length (long_name 2044 ''cat'')"
    by simp
  have fit: "fits_path_buf ''/'' (long_name 2044 ''cat'')"
    by (simp add: fits_path_buf_def PATH_BUF_def)
  have fe: "find_executable ?os (long_name 2044 ''cat'') PATH_BUF (sample_world []) =
      (Some (''//'' @ long_name 2044 ''cat''),
       log_call (Access (''//'' @ long_name 2044 ''cat'')) (sample_world []))"
    using find_executable_home_hit [of ?os "''/''" "long_name 2044 ''cat''" "sample_world []"] fit
    by (simp add: all_executable_os_def)
  have launch: "\<And>w p a. launch_os all_executable_os w p a = Terminated 0"
    by (simp add: all_executable_os_def sample_os_def)
  have "err (execute_external ?os [long_name 2044 ''cat''] (sample_world [])) = []"
    by (simp add: fe launch report_status_eq log_call_def) (simp add: sample_world_def)
  with len fe show ?thesis
    by simp
qed

subsection \<open>Claim C4: the message for an unknown command\<close>

text \<open>
  C4. For every command name for which resolution returns NotFound, exactly
  \<^verbatim>\<open>[<name>]: Unknown Command\<close> and a newline are written to standard error, nothing
  is written to standard output, and no child process is created. The dispatcher
  does this for every line whose first token is neither \<^verbatim>\<open>exit\<close> nor \<^verbatim>\<open>cd\<close>, and
  goes on with the next line.
\<close>

theorem unknown_command:
  "(fst (find_executable os cmd PATH_BUF w) = None \<longrightarrow>
      execute_external os (cmd # args) w =
        (snd (find_executable os cmd PATH_BUF w))
          \<lparr>err := err w @ ''['' @ cmd @ '']: Unknown Command\<newline>''\<rparr>
      \<and> err (execute_external os (cmd # args) w) =
          err w @ ''['' @ cmd @ '']: Unknown Command\<newline>''
      \<and> out (execute_external os (cmd # args) w) = out w
      \<and> spawned (execute_external os (cmd # args) w) = spawned w)
   \<and> (parse_line line MAX_ARGS = cmd # args \<and> cmd \<noteq> ''exit'' \<and> cmd \<noteq> ''cd''
        \<and> fst (find_executable os cmd PATH_BUF w) = None \<longrightarrow>
      process_line os line w = (Continue, execute_external os (cmd # args) w))"
proof -
  have a: "execute_external os (cmd # args) w =
        (snd (find_executable os cmd PATH_BUF w))
          \<lparr>err := err w @ ''['' @ cmd @ '']: Unknown Command\<newline>''\<rparr>"
    if none: "fst (find_executable os cmd PATH_BUF w) = None"
  proof -
    obtain w1 where fe: "find_executable os cmd PATH_BUF w = (None, w1)"
      using none by (cases "find_executable os cmd PATH_BUF w") auto
    have "err w1 = err w"
      using find_executable_fields(1) [of os cmd PATH_BUF w] fe by simp
    with execute_external_unknown [OF fe, of args] fe show ?thesis
      by simp
  qed
  have b: "process_line os line w = (Continue, execute_external os (cmd # args) w)"
    if "parse_line line MAX_ARGS = cmd # args" and "cmd \<noteq> ''exit''" and "cmd \<noteq> ''cd''"
    using that by (rule process_line_external)
  from a b show ?thesis
    by (auto simp: find_executable_fields simp del: execute_external.simps)
qed

text \<open>The theorem on the sample system, at the line \<^verbatim>\<open>frobnicate -x\<close>.\<close>

theorem unknown_command_witness:
  "fst (find_executable sample_os ''frobnicate'' PATH_BUF (sample_world [])) = None
   \<and> parse_line ''frobnicate -x'' MAX_ARGS = [''frobnicate'', ''-x'']
   \<and> fst (process_line sample_os ''frobnicate -x'' (sample_world [])) = Continue
   \<and> err (snd (process_line sample_os ''frobnicate -x'' (sample_world []))) =
       ''[frobnicate]: Unknown Command\<newline>''
   \<and> out (snd (process_line sample_os ''frobnicate -x'' (sample_world []))) = []
   \<and> spawned (snd (process_line sample_os ''frobnicate -x'' (sample_world []))) = []"
proof -
  let ?w = "sample_world []"
  have fits: "fits_path_buf ''/home/u'' ''frobnicate''" "fits_path_buf ''/bin'' ''frobnicate''"
    by (simp_all add: fits_path_buf_def PATH_BUF_def)
  have "find_executable sample_os ''frobnicate'' PATH_BUF ?w =
      bin_candidate sample_os ''frobnicate'' (log_call (Access ''/home/u/frobnicate'') ?w)"
    using find_executable_home_miss [of sample_os "''/home/u''" "''frobnicate''" ?w] fits
    by (simp add: sample_os_def)
  then have none: "fst (find_executable sample_os ''frobnicate'' PATH_BUF ?w) = None"
    by (simp add: bin_candidate_def fits sample_os_def)
  have parse: "parse_line ''frobnicate -x'' MAX_ARGS = [''frobnicate'', ''-x'']"
    by (simp add: parse_line_runs MAX_ARGS_def nonws_runs_def is_ws_def)
  have w0: "err ?w = []" "out ?w = []" "spawned ?w = []"
    by (simp_all add: sample_world_def spawned_def)
  let ?x = "execute_external sample_os [''frobnicate'', ''-x''] ?w"
  from unknown_command [of sample_os "''frobnicate''" ?w "[''-x'']" "''frobnicate -x''"]
    none parse
  have r: "process_line sample_os ''frobnicate -x'' ?w = (Continue, ?x)"
    and e: "err ?x = err ?w @ ''['' @ ''frobnicate'' @ '']: Unknown Command\<newline>''"
    and o: "out ?x = out ?w"
    and s: "spawned ?x = spawned ?w"
    by blast+
  show ?thesis
    by (simp add: none parse r e o s w0 del: execute_external.simps)
qed


section \<open>The built-in \<^verbatim>\<open>cd\<close>\<close>

lemma process_line_cd:
  assumes "parse_line line MAX_ARGS = ''cd'' # args"
  shows "process_line os line w =
    (Continue, builtin_cd os (''cd'' # args) (int (length (''cd'' # args))) w)"
  using assms parse_line_nonblank [OF assms]
  by (simp add: process_line_def Let_def)

lemma builtin_cd_target:
  "builtin_cd os (''cd'' # args) (int (length (''cd'' # args))) w =
     (case cd_target os args of
        None \<Rightarrow> w\<lparr>err := err w @ ''cd: HOME not set\<newline>''\<rparr>
      | Some t \<Rightarrow>
          (case chdir_os os w t of
             Inl e \<Rightarrow> (log_call (Chdir t) w)\<lparr>err := err w @ ''chdir: '' @ e @ ''\<newline>''\<rparr>
           | Inr d \<Rightarrow> (log_call (Chdir t) w)\<lparr>cwd := d\<rparr>))"
  by (cases args)
    (simp_all add: builtin_cd_def cd_target_def write_str_def write_fd_def perror_def
      log_call_def STDERR_FILENO_def STDOUT_FILENO_def split: option.splits sum.splits)

lemma parse_cd: "parse_line ''cd'' MAX_ARGS = [''cd'']"
  by (simp add: parse_line_runs MAX_ARGS_def nonws_runs_def is_ws_def)

lemma parse_cd_nonexistent: "parse_line ''cd /nonexistent'' MAX_ARGS = [''cd'', ''/nonexistent'']"
  by (simp add: parse_line_runs MAX_ARGS_def nonws_runs_def is_ws_def)

lemma find_executable_empty_home:
  "HOME os = Some [] \<Longrightarrow>
   find_executable os cmd sz w = find_executable (os\<lparr>HOME := None\<rparr>) cmd sz w"
  by (simp add: find_executable_def split: option.splits)


subsection \<open>Claim C6: \<^verbatim>\<open>cd\<close> and its failures\<close>

text \<open>
  C6. For every input cycle whose first token is \<^verbatim>\<open>cd\<close>, the target is the second
  token if present, otherwise the \<^verbatim>\<open>HOME\<close> environment variable. If neither is
  available the shell writes \<^verbatim>\<open>cd: HOME not set\<close> to standard error, makes no
  \<^verbatim>\<open>chdir\<close> call, and the working directory is unchanged. Otherwise it calls
  \<^verbatim>\<open>chdir\<close> on the target; on failure it writes \<^verbatim>\<open>chdir: \<close> and the error text to
  standard error and the working directory is unchanged; on success the working
  directory is the new one and nothing is written. In every case the loop continues:
  the shell is not terminated.
\<close>

theorem cd_builtin:
  "parse_line line MAX_ARGS = ''cd'' # args \<longrightarrow>
     fst (process_line os line w) = Continue
     \<and> out (snd (process_line os line w)) = out w
     \<and> (cd_target os args = None \<longrightarrow>
          snd (process_line os line w) = w\<lparr>err := err w @ ''cd: HOME not set\<newline>''\<rparr>
          \<and> cwd (snd (process_line os line w)) = cwd w)
     \<and> (cd_target os args = Some t \<and> chdir_os os w t = Inl e \<longrightarrow>
          snd (process_line os line w) =
            (log_call (Chdir t) w)\<lparr>err := err w @ ''chdir: '' @ e @ ''\<newline>''\<rparr>
          \<and> cwd (snd (process_line os line w)) = cwd w)
     \<and> (cd_target os args = Some t \<and> chdir_os os w t = Inr d \<longrightarrow>
          snd (process_line os line w) = (log_call (Chdir t) w)\<lparr>cwd := d\<rparr>
          \<and> cwd (snd (process_line os line w)) = d
          \<and> err (snd (process_line os line w)) = err w)"
proof
  assume p: "parse_line line MAX_ARGS = ''cd'' # args"
  show "fst (process_line os line w) = Continue
     \<and> out (snd (process_line os line w)) = out w
     \<and> (cd_target os args = None \<longrightarrow>
          snd (process_line os line w) = w\<lparr>err := err w @ ''cd: HOME not set\<newline>''\<rparr>
          \<and> cwd (snd (process_line os line w)) = cwd w)
     \<and> (cd_target os args = Some t \<and> chdir_os os w t = Inl e \<longrightarrow>
          snd (process_line os line w) =
            (log_call (Chdir t) w)\<lparr>err := err w @ ''chdir: '' @ e @ ''\<newline>''\<rparr>
          \<and> cwd (snd (process_line os line w)) = cwd w)
     \<and> (cd_target os args = Some t \<and> chdir_os os w t = Inr d \<longrightarrow>
          snd (process_line os line w) = (log_call (Chdir t) w)\<lparr>cwd := d\<rparr>
          \<and> cwd (snd (process_line os line w)) = d
          \<and> err (snd (process_line os line w)) = err w)"
    unfolding process_line_cd [OF p] builtin_cd_target
    by (auto simp: log_call_def split: option.splits sum.splits)
qed

text \<open>
  The theorem on the sample system: \<^verbatim>\<open>cd\<close> with \<^verbatim>\<open>HOME=/tmp\<close>, \<^verbatim>\<open>cd /nonexistent\<close>,
  and \<^verbatim>\<open>cd\<close> with \<^verbatim>\<open>HOME\<close> unset.
\<close>

theorem cd_builtin_witness:
  "cwd (snd (process_line (sample_os\<lparr>HOME := Some ''/tmp''\<rparr>) ''cd'' (sample_world []))) = ''/tmp''
   \<and> err (snd (process_line (sample_os\<lparr>HOME := Some ''/tmp''\<rparr>) ''cd'' (sample_world []))) = []
   \<and> cwd (snd (process_line sample_os ''cd /nonexistent'' (sample_world []))) = ''/''
   \<and> err (snd (process_line sample_os ''cd /nonexistent'' (sample_world []))) =
       ''chdir: No such file or directory\<newline>''
   \<and> fst (process_line sample_os ''cd /nonexistent'' (sample_world [])) = Continue
   \<and> snd (process_line (sample_os\<lparr>HOME := None\<rparr>) ''cd'' (sample_world [])) =
       (sample_world [])\<lparr>err := ''cd: HOME not set\<newline>''\<rparr>"
proof -
  let ?w = "sample_world []"
  have w0: "err ?w = []" "cwd ?w = ''/''"
    by (simp_all add: sample_world_def)
  have t1: "cd_target (sample_os\<lparr>HOME := Some ''/tmp''\<rparr>) [] = Some ''/tmp''"
    and c1: "chdir_os (sample_os\<lparr>HOME := Some ''/tmp''\<rparr>) ?w ''/tmp'' = Inr ''/tmp''"
    by (simp_all add: cd_target_def sample_os_def)
  have t2: "cd_target sample_os [''/nonexistent''] = Some ''/nonexistent''"
    and c2: "chdir_os sample_os ?w ''/nonexistent'' = Inl ''No such file or directory''"
    by (simp_all add: cd_target_def sample_os_def)
  have t3: "cd_target (sample_os\<lparr>HOME := None\<rparr>) [] = None"
    by (simp add: cd_target_def)
  from cd_builtin [of "''cd''" "[]" "sample_os\<lparr>HOME := Some ''/tmp''\<rparr>" ?w "''/tmp''" "[]" "''/tmp''"]
    parse_cd t1 c1
  have a: "cwd (snd (process_line (sample_os\<lparr>HOME := Some ''/tmp''\<rparr>) ''cd'' ?w)) = ''/tmp''"
    "err (snd (process_line (sample_os\<lparr>HOME := Some ''/tmp''\<rparr>) ''cd'' ?w)) = err ?w"
    by blast+
  from cd_builtin [of "''cd /nonexistent''" "[''/nonexistent'']" sample_os ?w "''/nonexistent''"
      "''No such file or directory''" "[]"] parse_cd_nonexistent t2 c2
  have b: "cwd (snd (process_line sample_os ''cd /nonexistent'' ?w)) = cwd ?w"
    "snd (process_line sample_os ''cd /nonexistent'' ?w) =
      (log_call (Chdir ''/nonexistent'') ?w)
        \<lparr>err := err ?w @ ''chdir: '' @ ''No such file or directory'' @ ''\<newline>''\<rparr>"
    "fst (process_line sample_os ''cd /nonexistent'' ?w) = Continue"
    by blast+
  from cd_builtin [of "''cd''" "[]" "sample_os\<lparr>HOME := None\<rparr>" ?w "[]" "[]" "[]"] parse_cd t3
  have c: "snd (process_line (sample_os\<lparr>HOME := None\<rparr>) ''cd'' ?w) =
      ?w\<lparr>err := err ?w @ ''cd: HOME not set\<newline>''\<rparr>"
    by blast
  show ?thesis
    by (simp add: a b c w0 log_call_def)
qed

subsection \<open>Claim C10: \<^verbatim>\<open>cd\<close> with an empty \<^verbatim>\<open>HOME\<close>\<close>

text \<open>
  C10. When \<^verbatim>\<open>cd\<close> is invoked with no argument while \<^verbatim>\<open>HOME\<close> is set to the empty
  string, the shell does not write \<^verbatim>\<open>cd: HOME not set\<close>: it calls \<^verbatim>\<open>chdir\<close> on
  the empty string, and when that fails, as it does on a POSIX system, it writes the
  \<^verbatim>\<open>chdir\<close> diagnostic and the working directory is unchanged. The resolver, unlike
  the built-in, treats an empty \<^verbatim>\<open>HOME\<close> as unset: only \<^verbatim>\<open>/bin\<close> is searched.
\<close>

theorem cd_empty_home:
  "HOME os = Some [] \<and> parse_line line MAX_ARGS = [''cd''] \<longrightarrow>
     fst (process_line os line w) = Continue
     \<and> calls (snd (process_line os line w)) = calls w @ [Chdir []]
     \<and> err (snd (process_line os line w)) \<noteq> err w @ ''cd: HOME not set\<newline>''
     \<and> (chdir_os os w [] = Inl e \<longrightarrow>
          snd (process_line os line w) =
            (log_call (Chdir []) w)\<lparr>err := err w @ ''chdir: '' @ e @ ''\<newline>''\<rparr>
          \<and> cwd (snd (process_line os line w)) = cwd w)
     \<and> find_executable os cmd PATH_BUF w = find_executable (os\<lparr>HOME := None\<rparr>) cmd PATH_BUF w
     \<and> find_executable os cmd PATH_BUF w = bin_candidate os cmd w"
proof
  assume a: "HOME os = Some [] \<and> parse_line line MAX_ARGS = [''cd'']"
  then have home: "HOME os = Some []" and p: "parse_line line MAX_ARGS = ''cd'' # []"
    by simp_all
  have t: "cd_target os [] = Some []"
    using home by (simp add: cd_target_def)
  have pl: "process_line os line w =
      (Continue,
       case chdir_os os w [] of
         Inl e \<Rightarrow> (log_call (Chdir []) w)\<lparr>err := err w @ ''chdir: '' @ e @ ''\<newline>''\<rparr>
       | Inr d \<Rightarrow> (log_call (Chdir []) w)\<lparr>cwd := d\<rparr>)"
    unfolding process_line_cd [OF p] builtin_cd_target by (simp add: t)
  have fe: "find_executable os cmd PATH_BUF w = find_executable (os\<lparr>HOME := None\<rparr>) cmd PATH_BUF w"
    using home by (rule find_executable_empty_home)
  have fb: "find_executable os cmd PATH_BUF w = bin_candidate os cmd w"
    using home by (intro find_executable_bin) simp
  show "fst (process_line os line w) = Continue
     \<and> calls (snd (process_line os line w)) = calls w @ [Chdir []]
     \<and> err (snd (process_line os line w)) \<noteq> err w @ ''cd: HOME not set\<newline>''
     \<and> (chdir_os os w [] = Inl e \<longrightarrow>
          snd (process_line os line w) =
            (log_call (Chdir []) w)\<lparr>err := err w @ ''chdir: '' @ e @ ''\<newline>''\<rparr>
          \<and> cwd (snd (process_line os line w)) = cwd w)
     \<and> find_executable os cmd PATH_BUF w = find_executable (os\<lparr>HOME := None\<rparr>) cmd PATH_BUF w
     \<and> find_executable os cmd PATH_BUF w = bin_candidate os cmd w"
    unfolding pl using fe fb
    by (cases "chdir_os os w []") (simp_all add: log_call_def)
qed

text \<open>The theorem on the sample system with \<^verbatim>\<open>HOME\<close> set to the empty string.\<close>

theorem cd_empty_home_witness:
  "HOME (sample_os\<lparr>HOME := Some []\<rparr>) = Some []
   \<and> chdir_os (sample_os\<lparr>HOME := Some []\<rparr>) (sample_world []) [] = Inl ''No such file or directory''
   \<and> process_line (sample_os\<lparr>HOME := Some []\<rparr>) ''cd'' (sample_world []) =
       (Continue,
        (sample_world [])\<lparr>err := ''chdir: No such file or directory\<newline>'', calls := [Chdir []]\<rparr>)
   \<and> find_executable (sample_os\<lparr>HOME := Some []\<rparr>) ''ls'' PATH_BUF (sample_world []) =
       (Some ''/bin/ls'', log_call (Access ''/bin/ls'') (sample_world []))"
proof -
  let ?os = "sample_os\<lparr>HOME := Some []\<rparr>" and ?w = "sample_world []"
  have home: "HOME ?os = Some []"
    by simp
  have ch: "chdir_os ?os ?w [] = Inl ''No such file or directory''"
    by (simp add: sample_os_def)
  from cd_empty_home [of ?os "''cd''" ?w "''No such file or directory''" "''ls''"] home ch parse_cd
  have f: "fst (process_line ?os ''cd'' ?w) = Continue"
    and s: "snd (process_line ?os ''cd'' ?w) =
      (log_call (Chdir []) ?w)\<lparr>err := err ?w @ ''chdir: '' @ ''No such file or directory'' @ ''\<newline>''\<rparr>"
    and b: "find_executable ?os ''ls'' PATH_BUF ?w = bin_candidate ?os ''ls'' ?w"
    by blast+
  have pl: "process_line ?os ''cd'' ?w =
      (Continue, ?w\<lparr>err := ''chdir: No such file or directory\<newline>'', calls := [Chdir []]\<rparr>)"
    using f s by (cases "process_line ?os ''cd'' ?w") (simp add: log_call_def sample_world_def)
  have fe: "find_executable ?os ''ls'' PATH_BUF ?w =
      (Some ''/bin/ls'', log_call (Access ''/bin/ls'') ?w)"
    unfolding b by (simp add: bin_candidate_def sample_os_def)
  from home ch pl fe show ?thesis
    by (simp only: simp_thms)
qed

section \<open>Shutdown\<close>

lemma process_line_exit:
  assumes "parse_line line MAX_ARGS = ''exit'' # rest"
  shows "process_line os line w = (Break, w)"
  using assms parse_line_nonblank [OF assms]
  by (simp add: process_line_def Let_def)

lemma write_prompt_ok:
  "prompt_write_error os w = None \<Longrightarrow> write_prompt os w = Inr (w\<lparr>out := out w @ ''mini-bash $''\<rparr>)"
  by (simp add: write_prompt_def write_fd_def STDOUT_FILENO_def PROMPT_def PROMPT_LEN_def)

lemma write_prompt_Inr:
  "write_prompt os w = Inr w1 \<Longrightarrow> w1 = w\<lparr>out := out w @ ''mini-bash $''\<rparr>"
  by (auto simp: write_prompt_def write_fd_def STDOUT_FILENO_def PROMPT_def PROMPT_LEN_def
      split: option.splits)

lemma read_line_frame:
  "read_line os lb w = (r, lb', w') \<Longrightarrow> w' = w\<lparr>stdin := stdin w'\<rparr>"
  by (auto simp: read_line_def Let_def split: if_splits prod.splits)

lemma main_loop_exit:
  assumes "write_prompt os w = Inr w1"
    and "read_line os lb w1 = (Some buf, lb', w2)"
    and "parse_line (c_str buf) MAX_ARGS = ''exit'' # rest"
  shows "main_loop os lb w = w2"
  using assms process_line_exit [OF assms(3), of os w2]
  by (subst main_loop.simps) simp

lemma main_loop_read_fails:
  assumes "write_prompt os w = Inr w1"
    and "read_line os lb w1 = (None, lb', w2)"
  shows "main_loop os lb w = w2\<lparr>out := out w2 @ ''\<newline>''\<rparr>"
  using assms
  by (subst main_loop.simps) (simp add: write_chr_def write_fd_def STDOUT_FILENO_def)

lemma read_line_eof: "stdin w = [] \<Longrightarrow> read_line os lb w = (None, snd (read_line os lb w))"
  by (simp add: read_line_def Let_def)

lemma read_line_eof_world: "stdin w = [] \<Longrightarrow> snd (snd (read_line os lb w)) = w"
  by (simp add: read_line_def Let_def)

lemma main_eof:
  assumes "prompt_write_error os w = None" and "stdin w = []"
  shows "main os w = (0, w\<lparr>out := out w @ ''mini-bash $'' @ ''\<newline>''\<rparr>)"
proof -
  let ?lb = "\<lparr>buf_null = True, cap = 0\<rparr>"
  let ?w1 = "w\<lparr>out := out w @ ''mini-bash $''\<rparr>"
  have wp: "write_prompt os w = Inr ?w1"
    using assms(1) by (rule write_prompt_ok)
  have e: "stdin ?w1 = []"
    using assms(2) by simp
  obtain lb' w2 where rl: "read_line os ?lb ?w1 = (None, lb', w2)"
    using read_line_eof [OF e, of os ?lb] by (cases "snd (read_line os ?lb ?w1)") auto
  have "w2 = ?w1"
    using read_line_eof_world [OF e, of os ?lb] rl by simp
  with main_loop_read_fails [OF wp rl] show ?thesis
    by (simp add: main_def)
qed

lemma parse_exit_now: "parse_line (c_str ''exit now\<newline>'') MAX_ARGS = [''exit'', ''now'']"
  by (simp add: c_str_def parse_line_runs MAX_ARGS_def nonws_runs_def is_ws_def)

lemma read_loop_error:
  "CHR ''\<newline>'' \<notin> set pre \<Longrightarrow>
   fst (read_loop os (map Byte pre @ ReadError # rest) acc cp) = None"
  by (induction pre arbitrary: acc cp) (auto simp: Let_def)

lemma read_loop_grow_fails:
  "CHR ''\<newline>'' \<notin> set pre \<Longrightarrow> length acc + length pre + 1 = cp \<Longrightarrow>
   \<not> alloc_ok os (cp * 2) \<Longrightarrow>
   fst (read_loop os (map Byte pre @ Byte c # rest) acc cp) = None"
  by (induction pre arbitrary: acc) (auto simp: Let_def)

lemma read_line_fst:
  "fst (read_line os lb w) =
     (if (buf_null lb \<or> cap lb = 0) \<and> \<not> alloc_ok os INITIAL_BUF then None
      else fst (read_loop os (stdin w) []
        (if buf_null lb \<or> cap lb = 0 then INITIAL_BUF else cap lb)))"
  by (simp add: read_line_def Let_def split: prod.splits)


subsection \<open>Claim C5: \<^verbatim>\<open>exit\<close>\<close>

text \<open>
  C5. For every input cycle whose first token is \<^verbatim>\<open>exit\<close>, whatever tokens follow,
  the loop is left at once: nothing is written, no system call is made, and the rest
  of the input is not read. The exit code of \<^verbatim>\<open>main\<close> is 0, on shutdown by
  \<^verbatim>\<open>exit\<close> and on end of input, where a newline is written after the prompt.
\<close>

theorem exit_builtin:
  "(parse_line line MAX_ARGS = ''exit'' # rest \<longrightarrow> process_line os line w = (Break, w))
   \<and> (write_prompt os w = Inr w1 \<and> read_line os lb w1 = (Some buf, lb', w2)
        \<and> parse_line (c_str buf) MAX_ARGS = ''exit'' # rest \<longrightarrow>
      main_loop os lb w = w2 \<and> w2 = w\<lparr>out := out w @ ''mini-bash $'', stdin := stdin w2\<rparr>)
   \<and> (prompt_write_error os w = None \<and> stdin w = [] \<longrightarrow>
      main os w = (0, w\<lparr>out := out w @ ''mini-bash $'' @ ''\<newline>''\<rparr>))
   \<and> fst (main os w) = 0"
proof -
  have a: "main_loop os lb w = w2 \<and> w2 = w\<lparr>out := out w @ ''mini-bash $'', stdin := stdin w2\<rparr>"
    if wp: "write_prompt os w = Inr w1" and rl: "read_line os lb w1 = (Some buf, lb', w2)"
      and p: "parse_line (c_str buf) MAX_ARGS = ''exit'' # rest"
  proof -
    have "w2 = w1\<lparr>stdin := stdin w2\<rparr>"
      using rl by (rule read_line_frame)
    with write_prompt_Inr [OF wp] have "w2 = w\<lparr>out := out w @ ''mini-bash $'', stdin := stdin w2\<rparr>"
      by simp
    with main_loop_exit [OF wp rl p] show ?thesis
      by simp
  qed
  have b: "fst (main os w) = 0"
    by (simp add: main_def)
  from a b process_line_exit [of line rest os w] main_eof [of os w] show ?thesis
    by blast
qed

text \<open>
  The theorem on the sample system: the line \<^verbatim>\<open>exit now\<close>; the input
  \<^verbatim>\<open>exit now\<close>, \<^verbatim>\<open>ls\<close>, of which the second line is left unread; and the empty input.
\<close>

theorem exit_builtin_witness:
  "parse_line ''exit now'' MAX_ARGS = [''exit'', ''now'']
   \<and> process_line sample_os ''exit now'' (sample_world []) = (Break, sample_world [])
   \<and> main_loop sample_os \<lparr>buf_null = True, cap = 0\<rparr>
        (sample_world (map Byte ''exit now\<newline>ls\<newline>'')) =
       (sample_world (map Byte ''ls\<newline>''))\<lparr>out := ''mini-bash $''\<rparr>
   \<and> main sample_os (sample_world []) = (0, (sample_world [])\<lparr>out := ''mini-bash $\<newline>''\<rparr>)"
proof -
  let ?lb = "\<lparr>buf_null = True, cap = 0\<rparr>"
  let ?w = "sample_world (map Byte ''exit now\<newline>ls\<newline>'')"
  let ?w1 = "?w\<lparr>out := out ?w @ ''mini-bash $''\<rparr>"
  let ?w2 = "?w1\<lparr>stdin := map Byte ''ls\<newline>''\<rparr>"
  have p: "parse_line ''exit now'' MAX_ARGS = [''exit'', ''now'']"
    by (simp add: parse_line_runs MAX_ARGS_def nonws_runs_def is_ws_def)
  have np: "prompt_write_error sample_os w = None" for w
    by (simp add: sample_os_def)
  have wp: "write_prompt sample_os ?w = Inr ?w1"
    using np by (rule write_prompt_ok)
  have rl: "read_line sample_os ?lb ?w1 = (Some ''exit now\<newline>'', \<lparr>buf_null = False, cap = 256\<rparr>, ?w2)"
    by (simp add: read_line_def sample_os_def INITIAL_BUF_def sample_world_def)
  from exit_builtin [of "''exit now''" "[''now'']" sample_os "sample_world []"] p
  have a: "process_line sample_os ''exit now'' (sample_world []) = (Break, sample_world [])"
    by simp
  from exit_builtin [of _ "[''now'']" sample_os ?w ?w1 ?lb "''exit now\<newline>''"
      "\<lparr>buf_null = False, cap = 256\<rparr>" ?w2] wp rl parse_exit_now
  have b: "main_loop sample_os ?lb ?w = ?w2"
    by blast
  from exit_builtin [of _ _ sample_os "sample_world []"] np
  have c: "main sample_os (sample_world []) =
      (0, (sample_world [])\<lparr>out := out (sample_world []) @ ''mini-bash $'' @ ''\<newline>''\<rparr>)"
    by (simp add: sample_world_def)
  from p a b c show ?thesis
    by (simp add: sample_world_def)
qed

subsection \<open>Claim C8: read errors and allocation failures\<close>

lemma buf_inv_start: "0 < cap0 \<Longrightarrow> buf_inv cap0 0 cap0"
  unfolding buf_inv_def by (auto intro: exI [of _ 0])

lemma buf_inv_keep: "buf_inv cap0 len cp \<Longrightarrow> len + 2 \<le> cp \<Longrightarrow> buf_inv cap0 (Suc len) cp"
  unfolding buf_inv_def by auto

lemma buf_inv_grow: "buf_inv cap0 len cp \<Longrightarrow> cp < len + 2 \<Longrightarrow> buf_inv cap0 (Suc len) (cp * 2)"
  unfolding buf_inv_def
proof (elim conjE exE)
  fix i
  assume "len + 1 \<le> cp" and "cp < len + 2" and "cp = cap0 * 2 ^ i"
  then have "cp * 2 = cap0 * 2 ^ Suc i" and "Suc len + 1 \<le> cp * 2" and "cp * 2 < 2 * (Suc len + 1)"
    by simp_all
  then show "Suc len + 1 \<le> cp * 2 \<and>
      (\<exists>i. cp * 2 = cap0 * 2 ^ i \<and> (0 < i \<longrightarrow> cp * 2 < 2 * (Suc len + 1)))"
    by blast
qed

lemma buf_inv_full:
  assumes "buf_inv cap0 len cp" and "len + 1 = cap0 * 2 ^ j"
  shows "cp = len + 1"
proof -
  from assms(1) obtain i where le: "len + 1 \<le> cp" and cp: "cp = cap0 * 2 ^ i"
    and tight: "0 < i \<longrightarrow> cp < 2 * (len + 1)"
    unfolding buf_inv_def by blast
  have pos: "0 < cap0"
    using assms(2) by (cases cap0) simp_all
  have "\<not> j < i"
  proof
    assume "j < i"
    then have "Suc j \<le> i" by simp
    then have "(2::nat) ^ Suc j \<le> 2 ^ i"
      by (rule power_increasing) simp
    then have m: "cap0 * 2 ^ Suc j \<le> cap0 * 2 ^ i"
      by (rule mult_le_mono2)
    have "2 * (len + 1) = 2 * (cap0 * 2 ^ j)"
      by (simp only: assms(2))
    also have "\<dots> = cap0 * 2 ^ Suc j"
      by simp
    also note m
    also have "cap0 * 2 ^ i = cp"
      by (simp only: cp)
    finally have "2 * (len + 1) \<le> cp" .
    with tight \<open>j < i\<close> show False
      by simp
  qed
  then have "i \<le> j" by simp
  then have "(2::nat) ^ i \<le> 2 ^ j"
    by (rule power_increasing) simp
  then have "cap0 * 2 ^ i \<le> cap0 * 2 ^ j"
    by (rule mult_le_mono2)
  with cp assms(2) le show ?thesis
    by linarith
qed

lemma read_loop_reaches:
  assumes "CHR ''\<newline>'' \<notin> set pre" and "buf_inv cap0 (length acc) cp"
  shows "fst (read_loop os (map Byte pre @ rest) acc cp) = None
    \<or> (\<exists>cp'. read_loop os (map Byte pre @ rest) acc cp = read_loop os rest (acc @ pre) cp'
          \<and> buf_inv cap0 (length (acc @ pre)) cp')"
  using assms
proof (induction pre arbitrary: acc cp)
  case Nil
  then show ?case by auto
next
  case (Cons a pre)
  then have nl: "a \<noteq> CHR ''\<newline>''" and nls: "CHR ''\<newline>'' \<notin> set pre"
    by auto
  show ?case
  proof (cases "length acc + 2 > cp")
    case grow: True
    show ?thesis
    proof (cases "alloc_ok os (cp * 2)")
      case False
      with grow show ?thesis by simp
    next
      case True
      have step: "read_loop os (map Byte (a # pre) @ rest) acc cp =
          read_loop os (map Byte pre @ rest) (acc @ [a]) (cp * 2)"
        using grow True nl by simp
      have "buf_inv cap0 (length (acc @ [a])) (cp * 2)"
        using buf_inv_grow [OF Cons.prems(2)] grow by simp
      from Cons.IH [OF nls this] show ?thesis
        unfolding step by simp
    qed
  next
    case keep: False
    have step: "read_loop os (map Byte (a # pre) @ rest) acc cp =
        read_loop os (map Byte pre @ rest) (acc @ [a]) cp"
      using keep nl by simp
    have "buf_inv cap0 (length (acc @ [a])) cp"
      using buf_inv_keep [OF Cons.prems(2)] keep by simp
    from Cons.IH [OF nls this] show ?thesis
      unfolding step by simp
  qed
qed

lemma read_loop_grow_fails_later:
  assumes "CHR ''\<newline>'' \<notin> set pre" and "length pre + 1 = cap0 * 2 ^ j"
    and "\<not> alloc_ok os (2 * (length pre + 1))"
  shows "fst (read_loop os (map Byte pre @ Byte c # rest) [] cap0) = None"
proof -
  have "0 < cap0"
    using assms(2) by (cases cap0) simp_all
  then have "buf_inv cap0 (length ([] :: string)) cap0"
    by (simp add: buf_inv_start)
  from read_loop_reaches [OF assms(1) this, of os "Byte c # rest"]
  show ?thesis
  proof (elim disjE exE conjE)
    assume "fst (read_loop os (map Byte pre @ Byte c # rest) [] cap0) = None"
    then show ?thesis .
  next
    fix cp'
    assume eq: "read_loop os (map Byte pre @ Byte c # rest) [] cap0 =
        read_loop os (Byte c # rest) ([] @ pre) cp'"
      and inv: "buf_inv cap0 (length ([] @ pre)) cp'"
    have "cp' = length pre + 1"
      using buf_inv_full [OF inv] assms(2) by simp
    with assms(3) have "fst (read_loop os (Byte c # rest) ([] @ pre) cp') = None"
      by (simp add: mult.commute)
    with eq show ?thesis by simp
  qed
qed

lemma read_loop_partial:
  assumes "\<forall>n. alloc_ok os n" and "CHR ''\<newline>'' \<notin> set pre" and "acc @ pre \<noteq> []"
  shows "fst (read_loop os (map Byte pre) acc cp) = Some (acc @ pre)"
  using assms(2,3)
proof (induction pre arbitrary: acc cp)
  case Nil
  then show ?case by simp
next
  case (Cons a pre)
  then have "a \<noteq> CHR ''\<newline>''" and "CHR ''\<newline>'' \<notin> set pre"
    by auto
  with Cons.IH [of "acc @ [a]"] assms(1) show ?case
    by (simp add: Let_def)
qed

lemma main_loop_continue:
  assumes "write_prompt os w = Inr w1"
    and "read_line os lb w1 = (Some buf, lb', w2)"
    and "process_line os (c_str buf) w2 = (Continue, w3)"
  shows "main_loop os lb w = main_loop os lb' w3"
  using assms by (subst main_loop.simps) simp

lemma main_eq: "main os w = (0, main_loop os \<lparr>buf_null = True, cap = 0\<rparr> w)"
  by (simp add: main_def)

lemma sample_prompt: "write_prompt sample_os w = Inr (w\<lparr>out := out w @ ''mini-bash $''\<rparr>)"
  by (rule write_prompt_ok) (simp add: sample_os_def)

lemma small_memory_prompt:
  "write_prompt (small_memory_os n) w = Inr (w\<lparr>out := out w @ ''mini-bash $''\<rparr>)"
  by (rule write_prompt_ok) (simp add: small_memory_os_def sample_os_def)

lemma sample_ls:
  "process_line sample_os (c_str ''ls'') w =
     (Continue,
      w\<lparr>out := out w @ ''Command executed successfully. Return code: 0\<newline>'',
        calls := calls w @ [Access ''/home/u/ls'', Access ''/bin/ls'', Spawn ''/bin/ls'' [''ls'']]\<rparr>)"
proof -
  have p: "parse_line (c_str ''ls'') MAX_ARGS = ''ls'' # []"
    by (simp add: c_str_def parse_line_runs MAX_ARGS_def nonws_runs_def is_ws_def)
  have "find_executable sample_os ''ls'' PATH_BUF w =
      bin_candidate sample_os ''ls'' (log_call (Access ''/home/u/ls'') w)"
    using find_executable_home_miss [of sample_os "''/home/u''" "''ls''" w]
    by (simp add: sample_os_def)
  then have fe: "find_executable sample_os ''ls'' PATH_BUF w =
      (Some ''/bin/ls'', log_call (Access ''/bin/ls'') (log_call (Access ''/home/u/ls'') w))"
    by (simp add: bin_candidate_def sample_os_def)
  have l: "launch_os sample_os w' path argv = Terminated 0" for w' path argv
    by (simp add: sample_os_def)
  have o: "outcome_of sample_os 0 = ExitedNormally 0"
    by (simp add: outcome_of_def sample_os_def)
  have d: "decimal_int 0 = ''0''"
    by (simp add: decimal_int_def decimal_0)
  have "execute_external sample_os [''ls''] w =
      w\<lparr>out := out w @ ''Command executed successfully. Return code: 0\<newline>'',
        calls := calls w @ [Access ''/home/u/ls'', Access ''/bin/ls'', Spawn ''/bin/ls'' [''ls'']]\<rparr>"
    by (simp add: fe l report_status_eq o d log_call_def)
  with process_line_external [OF p, of sample_os w] show ?thesis
    by simp
qed

lemma sample_cd_tmp:
  "process_line sample_os (c_str ''cd /tmp\<newline>'') w =
     (Continue, w\<lparr>cwd := ''/tmp'', calls := calls w @ [Chdir ''/tmp'']\<rparr>)"
proof -
  have p: "parse_line (c_str ''cd /tmp\<newline>'') MAX_ARGS = ''cd'' # [''/tmp'']"
    by (simp add: c_str_def parse_line_runs MAX_ARGS_def nonws_runs_def is_ws_def)
  have t: "cd_target sample_os [''/tmp''] = Some ''/tmp''"
    by (simp add: cd_target_def)
  have c: "chdir_os sample_os w ''/tmp'' = Inr ''/tmp''"
    by (simp add: sample_os_def)
  show ?thesis
    unfolding process_line_cd [OF p] builtin_cd_target
    by (simp add: t c log_call_def)
qed

text \<open>
  C8 (as amended). A read error on standard input, a failure to allocate the line
  buffer, and a failure to grow it, at whichever doubling of its capacity, make
  \<^verbatim>\<open>read_line\<close> return -1, as end of input does when no character of a line is
  pending. The interpreter then writes a newline to standard output after the prompt
  and shuts down: nothing is written to standard error, no child is created, what
  was read of the unfinished line is dropped, and \<^verbatim>\<open>main\<close>, which returns the
  state in which the loop is left, returns 0. End of input after an unfinished line
  is different: \<^verbatim>\<open>read_line\<close> returns that line, and it is executed.
\<close>

theorem read_failure_shutdown:
  "((buf_null lb \<or> cap lb = 0) \<and> \<not> alloc_ok os INITIAL_BUF \<longrightarrow>
      read_line os lb w1 = (None, \<lparr>buf_null = True, cap = INITIAL_BUF\<rparr>, w1))
   \<and> (stdin w1 = map Byte pre @ ReadError # rest \<and> CHR ''\<newline>'' \<notin> set pre \<longrightarrow>
      fst (read_line os lb w1) = None)
   \<and> (stdin w1 = map Byte pre @ Byte c # rest \<and> CHR ''\<newline>'' \<notin> set pre
        \<and> length pre + 1 = (if buf_null lb \<or> cap lb = 0 then INITIAL_BUF else cap lb) * 2 ^ j
        \<and> \<not> alloc_ok os (2 * (length pre + 1)) \<longrightarrow>
      fst (read_line os lb w1) = None)
   \<and> (stdin w1 = [] \<longrightarrow> fst (read_line os lb w1) = None)
   \<and> ((\<forall>n. alloc_ok os n) \<and> stdin w1 = map Byte pre \<and> pre \<noteq> [] \<and> CHR ''\<newline>'' \<notin> set pre \<longrightarrow>
      fst (read_line os lb w1) = Some pre)
   \<and> (write_prompt os w = Inr w1 \<and> fst (read_line os lb w1) = None \<longrightarrow>
      main_loop os lb w =
        w\<lparr>out := out w @ ''mini-bash $'' @ ''\<newline>'',
          stdin := stdin (snd (snd (read_line os lb w1)))\<rparr>
      \<and> err (main_loop os lb w) = err w
      \<and> spawned (main_loop os lb w) = spawned w)
   \<and> (write_prompt os w = Inr w1 \<and> read_line os lb w1 = (Some buf, lb', w2)
        \<and> process_line os (c_str buf) w2 = (Continue, w3) \<longrightarrow>
      main_loop os lb w = main_loop os lb' w3)
   \<and> main os w = (0, main_loop os \<lparr>buf_null = True, cap = 0\<rparr> w)"
proof -
  let ?cap0 = "if buf_null lb \<or> cap lb = 0 then INITIAL_BUF else cap lb"
  have a: "(buf_null lb \<or> cap lb = 0) \<and> \<not> alloc_ok os INITIAL_BUF \<longrightarrow>
      read_line os lb w1 = (None, \<lparr>buf_null = True, cap = INITIAL_BUF\<rparr>, w1)"
    by (simp add: read_line_def)
  have b: "fst (read_line os lb w1) = None"
    if "stdin w1 = map Byte pre @ ReadError # rest" and "CHR ''\<newline>'' \<notin> set pre"
    using that by (simp add: read_line_fst read_loop_error)
  have c: "fst (read_line os lb w1) = None"
    if "stdin w1 = map Byte pre @ Byte c # rest" and "CHR ''\<newline>'' \<notin> set pre"
      and "length pre + 1 = ?cap0 * 2 ^ j"
      and "\<not> alloc_ok os (2 * (length pre + 1))"
  proof -
    have "fst (read_loop os (map Byte pre @ Byte c # rest) [] ?cap0) = None"
      using that(2,3,4) by (rule read_loop_grow_fails_later)
    with that(1) show ?thesis
      by (simp add: read_line_fst)
  qed
  have d: "stdin w1 = [] \<longrightarrow> fst (read_line os lb w1) = None"
    by (simp add: read_line_fst)
  have p: "fst (read_line os lb w1) = Some pre"
    if ok: "\<forall>n. alloc_ok os n" and "stdin w1 = map Byte pre" and "pre \<noteq> []"
      and "CHR ''\<newline>'' \<notin> set pre"
  proof -
    have "fst (read_loop os (map Byte pre) [] ?cap0) = Some ([] @ pre)"
      using ok that(4) by (rule read_loop_partial) (simp add: that(3))
    with ok that(2) show ?thesis
      by (simp add: read_line_fst)
  qed
  have e: "main_loop os lb w =
        w\<lparr>out := out w @ ''mini-bash $'' @ ''\<newline>'',
          stdin := stdin (snd (snd (read_line os lb w1)))\<rparr>
      \<and> err (main_loop os lb w) = err w
      \<and> spawned (main_loop os lb w) = spawned w"
    if wp: "write_prompt os w = Inr w1" and none: "fst (read_line os lb w1) = None"
  proof -
    obtain lb' w2 where rl: "read_line os lb w1 = (None, lb', w2)"
      using none by (cases "read_line os lb w1") auto
    have "w2 = w1\<lparr>stdin := stdin w2\<rparr>"
      using rl by (rule read_line_frame)
    with write_prompt_Inr [OF wp]
    have w2: "w2 = w\<lparr>out := out w @ ''mini-bash $'', stdin := stdin w2\<rparr>"
      by simp
    have "main_loop os lb w = w2\<lparr>out := out w2 @ ''\<newline>''\<rparr>"
      using wp rl by (rule main_loop_read_fails)
    also have "\<dots> = w\<lparr>out := out w @ ''mini-bash $'' @ ''\<newline>'', stdin := stdin w2\<rparr>"
      by (subst (1 2) w2) simp
    finally have "main_loop os lb w =
        w\<lparr>out := out w @ ''mini-bash $'' @ ''\<newline>'', stdin := stdin w2\<rparr>" .
    then show ?thesis
      by (simp add: rl spawned_def)
  qed
  have g: "main_loop os lb w = main_loop os lb' w3"
    if "write_prompt os w = Inr w1" and "read_line os lb w1 = (Some buf, lb', w2)"
      and "process_line os (c_str buf) w2 = (Continue, w3)"
    using that by (rule main_loop_continue)
  from a b c d p e g main_eq [of os w] show ?thesis
    by blast
qed

text \<open>
  The theorem on the sample system: a read error after one byte; no memory for the
  buffer; no memory at the second doubling of the buffer, at the 512th byte of a line;
  a read error on the second line, after \<^verbatim>\<open>cd /tmp\<close>; an unfinished line at the end
  of input.
\<close>

theorem read_failure_shutdown_witness:
  "main sample_os (sample_world [Byte CHR ''l'', ReadError, Byte CHR ''s'']) =
     (0, (sample_world [Byte CHR ''s''])\<lparr>out := ''mini-bash $\<newline>''\<rparr>)
   \<and> main (small_memory_os 0) (sample_world (map Byte ''ls\<newline>'')) =
     (0, (sample_world (map Byte ''ls\<newline>''))\<lparr>out := ''mini-bash $\<newline>''\<rparr>)
   \<and> fst (read_line (small_memory_os 512) \<lparr>buf_null = True, cap = 0\<rparr>
        (sample_world (map Byte (replicate 511 CHR ''a'') @ [Byte CHR ''b'', Byte CHR ''\<newline>'']))) = None
   \<and> out (snd (main (small_memory_os 512)
        (sample_world (map Byte (replicate 511 CHR ''a'') @ [Byte CHR ''b'', Byte CHR ''\<newline>''])))) =
       ''mini-bash $\<newline>''
   \<and> err (snd (main (small_memory_os 512)
        (sample_world (map Byte (replicate 511 CHR ''a'') @ [Byte CHR ''b'', Byte CHR ''\<newline>''])))) = []
   \<and> main sample_os (sample_world (map Byte ''cd /tmp\<newline>'' @ [ReadError])) =
     (0, (sample_world [])
        \<lparr>out := ''mini-bash $mini-bash $\<newline>'', cwd := ''/tmp'', calls := [Chdir ''/tmp'']\<rparr>)
   \<and> fst (read_line sample_os \<lparr>buf_null = True, cap = 0\<rparr> (sample_world (map Byte ''ls''))) =
       Some ''ls''"
proof -
  let ?lb = "\<lparr>buf_null = True, cap = 0\<rparr>" and ?lb' = "\<lparr>buf_null = False, cap = 256\<rparr>"
  note T = read_failure_shutdown
  \<comment> \<open>a read error after one byte\<close>
  let ?w = "sample_world [Byte CHR ''l'', ReadError, Byte CHR ''s'']"
  let ?w1 = "?w\<lparr>out := out ?w @ ''mini-bash $''\<rparr>"
  have in1: "stdin ?w1 = map Byte ''l'' @ ReadError # [Byte CHR ''s'']"
    by (simp add: sample_world_def)
  have rl1: "stdin (snd (snd (read_line sample_os ?lb ?w1))) = [Byte CHR ''s'']"
    by (simp add: read_line_def sample_os_def INITIAL_BUF_def sample_world_def)
  from T [where os = sample_os and lb = ?lb and w = ?w and ?w1.0 = ?w1
      and pre = "''l''" and rest = "[Byte CHR ''s'']"] sample_prompt [of ?w] in1
  have "main sample_os ?w = (0, main_loop sample_os ?lb ?w)"
    and "main_loop sample_os ?lb ?w =
      ?w\<lparr>out := out ?w @ ''mini-bash $'' @ ''\<newline>'',
        stdin := stdin (snd (snd (read_line sample_os ?lb ?w1)))\<rparr>"
    by simp_all
  then have a: "main sample_os ?w = (0, (sample_world [Byte CHR ''s''])\<lparr>out := ''mini-bash $\<newline>''\<rparr>)"
    unfolding rl1 by (simp add: sample_world_def)
  \<comment> \<open>no memory for the buffer\<close>
  let ?v = "sample_world (map Byte ''ls\<newline>'')"
  let ?v1 = "?v\<lparr>out := out ?v @ ''mini-bash $''\<rparr>"
  have na: "\<not> alloc_ok (small_memory_os 0) INITIAL_BUF"
    by (simp add: small_memory_os_def INITIAL_BUF_def)
  from T [where os = "small_memory_os 0" and lb = ?lb and ?w1.0 = ?v1] na
  have rl2: "read_line (small_memory_os 0) ?lb ?v1 = (None, \<lparr>buf_null = True, cap = INITIAL_BUF\<rparr>, ?v1)"
    by simp
  from T [where os = "small_memory_os 0" and lb = ?lb and w = ?v and ?w1.0 = ?v1]
    small_memory_prompt [of 0 ?v] rl2
  have "main (small_memory_os 0) ?v = (0, main_loop (small_memory_os 0) ?lb ?v)"
    and "main_loop (small_memory_os 0) ?lb ?v =
      ?v\<lparr>out := out ?v @ ''mini-bash $'' @ ''\<newline>'',
        stdin := stdin (snd (snd (read_line (small_memory_os 0) ?lb ?v1)))\<rparr>"
    by simp_all
  then have b: "main (small_memory_os 0) ?v = (0, ?v\<lparr>out := ''mini-bash $\<newline>''\<rparr>)"
    unfolding rl2 by (simp add: sample_world_def)
  \<comment> \<open>no memory at the second doubling, from 512 to 1024 bytes\<close>
  let ?pre = "replicate 511 CHR ''a''"
  let ?u = "sample_world (map Byte ?pre @ [Byte CHR ''b'', Byte CHR ''\<newline>''])"
  let ?u1 = "?u\<lparr>out := out ?u @ ''mini-bash $''\<rparr>"
  have in3: "stdin ?u = map Byte ?pre @ Byte CHR ''b'' # [Byte CHR ''\<newline>'']"
    "stdin ?u1 = map Byte ?pre @ Byte CHR ''b'' # [Byte CHR ''\<newline>'']"
    by (simp_all add: sample_world_def)
  have nl: "CHR ''\<newline>'' \<notin> set ?pre"
    by simp
  have len: "length ?pre + 1 = (if buf_null ?lb \<or> cap ?lb = 0 then INITIAL_BUF else cap ?lb) * 2 ^ 1"
    by (simp add: INITIAL_BUF_def)
  have ng: "\<not> alloc_ok (small_memory_os 512) (2 * (length ?pre + 1))"
    by (simp add: small_memory_os_def)
  from T [where os = "small_memory_os 512" and lb = ?lb and ?w1.0 = ?u
      and pre = ?pre and c = "CHR ''b''" and rest = "[Byte CHR ''\<newline>'']" and j = 1] in3(1) nl len ng
  have c: "fst (read_line (small_memory_os 512) ?lb ?u) = None"
    by blast
  from T [where os = "small_memory_os 512" and lb = ?lb and ?w1.0 = ?u1
      and pre = ?pre and c = "CHR ''b''" and rest = "[Byte CHR ''\<newline>'']" and j = 1] in3(2) nl len ng
  have c1: "fst (read_line (small_memory_os 512) ?lb ?u1) = None"
    by blast
  from T [where os = "small_memory_os 512" and lb = ?lb and w = ?u and ?w1.0 = ?u1]
    small_memory_prompt [of 512 ?u] c1
  have "main (small_memory_os 512) ?u = (0, main_loop (small_memory_os 512) ?lb ?u)"
    and "main_loop (small_memory_os 512) ?lb ?u =
      ?u\<lparr>out := out ?u @ ''mini-bash $'' @ ''\<newline>'',
        stdin := stdin (snd (snd (read_line (small_memory_os 512) ?lb ?u1)))\<rparr>"
    by blast+
  then have d: "out (snd (main (small_memory_os 512) ?u)) = ''mini-bash $\<newline>''"
    "err (snd (main (small_memory_os 512) ?u)) = []"
    by (simp_all add: sample_world_def)
  \<comment> \<open>a read error on the second line\<close>
  let ?x = "sample_world (map Byte ''cd /tmp\<newline>'' @ [ReadError])"
  let ?x1 = "?x\<lparr>out := out ?x @ ''mini-bash $''\<rparr>"
  let ?x2 = "?x1\<lparr>stdin := [ReadError]\<rparr>"
  let ?x3 = "?x2\<lparr>cwd := ''/tmp'', calls := calls ?x2 @ [Chdir ''/tmp'']\<rparr>"
  let ?x4 = "?x3\<lparr>out := out ?x3 @ ''mini-bash $''\<rparr>"
  have rx: "read_line sample_os ?lb ?x1 = (Some ''cd /tmp\<newline>'', ?lb', ?x2)"
    by (simp add: read_line_def sample_os_def INITIAL_BUF_def sample_world_def)
  have in4: "stdin ?x4 = map Byte [] @ ReadError # []"
    by (simp add: sample_world_def)
  have rx4: "stdin (snd (snd (read_line sample_os ?lb' ?x4))) = []"
    by (simp add: read_line_def sample_world_def)
  from T [where os = sample_os and lb = ?lb and w = ?x and ?w1.0 = ?x1 and buf = "''cd /tmp\<newline>''"
      and lb' = ?lb' and ?w2.0 = ?x2 and ?w3.0 = ?x3] sample_prompt [of ?x] rx sample_cd_tmp [of ?x2]
  have s1: "main sample_os ?x = (0, main_loop sample_os ?lb ?x)"
    and s2: "main_loop sample_os ?lb ?x = main_loop sample_os ?lb' ?x3"
    by blast+
  from T [where os = sample_os and lb = ?lb' and w = ?x3 and ?w1.0 = ?x4
      and pre = "[]" and rest = "[]"] sample_prompt [of ?x3] in4
  have s3: "main_loop sample_os ?lb' ?x3 =
      ?x3\<lparr>out := out ?x3 @ ''mini-bash $'' @ ''\<newline>'',
        stdin := stdin (snd (snd (read_line sample_os ?lb' ?x4)))\<rparr>"
    by simp
  have e: "main sample_os ?x =
      (0, (sample_world [])
        \<lparr>out := ''mini-bash $mini-bash $\<newline>'', cwd := ''/tmp'', calls := [Chdir ''/tmp'']\<rparr>)"
    unfolding s1 s2 s3 rx4 by (simp add: sample_world_def)
  \<comment> \<open>an unfinished line at the end of input is returned\<close>
  let ?y = "sample_world (map Byte ''ls'')"
  have ok: "\<forall>n. alloc_ok sample_os n"
    by (simp add: sample_os_def)
  have in5: "stdin ?y = map Byte ''ls''"
    by (simp add: sample_world_def)
  from T [where os = sample_os and lb = ?lb and ?w1.0 = ?y and pre = "''ls''"] ok in5
  have f: "fst (read_line sample_os ?lb ?y) = Some ''ls''"
    by simp
  from a b c d e f show ?thesis
    by (simp only: simp_thms)
qed

text \<open>
  C8 as stated, with a read error treated exactly like end of input, fails when an
  unfinished line is pending: after the characters \<^verbatim>\<open>ls\<close>, end of input runs
  \<^verbatim>\<open>/bin/ls\<close> and then shuts down, and a read error shuts down without running it.
\<close>

theorem read_error_unlike_eof_counterexample:
  "main sample_os (sample_world (map Byte ''ls'')) =
     (0, (sample_world [])
        \<lparr>out := ''mini-bash $Command executed successfully. Return code: 0\<newline>mini-bash $\<newline>'',
          calls := [Access ''/home/u/ls'', Access ''/bin/ls'', Spawn ''/bin/ls'' [''ls'']]\<rparr>)
   \<and> main sample_os (sample_world (map Byte ''ls'' @ [ReadError])) =
     (0, (sample_world [])\<lparr>out := ''mini-bash $\<newline>''\<rparr>)"
proof -
  let ?lb = "\<lparr>buf_null = True, cap = 0\<rparr>" and ?lb' = "\<lparr>buf_null = False, cap = 256\<rparr>"
  let ?w = "sample_world (map Byte ''ls'')"
  let ?w1 = "?w\<lparr>out := out ?w @ ''mini-bash $''\<rparr>"
  let ?w2 = "?w1\<lparr>stdin := []\<rparr>"
  let ?w3 = "?w2\<lparr>out := out ?w2 @ ''Command executed successfully. Return code: 0\<newline>'',
      calls := calls ?w2 @ [Access ''/home/u/ls'', Access ''/bin/ls'', Spawn ''/bin/ls'' [''ls'']]\<rparr>"
  let ?w4 = "?w3\<lparr>out := out ?w3 @ ''mini-bash $''\<rparr>"
  have rl: "read_line sample_os ?lb ?w1 = (Some ''ls'', ?lb', ?w2)"
    by (simp add: read_line_def sample_os_def INITIAL_BUF_def sample_world_def)
  have rl2: "read_line sample_os ?lb' ?w4 = (None, ?lb', ?w4)"
    by (simp add: read_line_def sample_world_def)
  have "main_loop sample_os ?lb ?w = main_loop sample_os ?lb' ?w3"
    using sample_prompt rl sample_ls by (rule main_loop_continue)
  also have "\<dots> = ?w4\<lparr>out := out ?w4 @ ''\<newline>''\<rparr>"
    using sample_prompt rl2 by (rule main_loop_read_fails)
  finally have eof: "main sample_os ?w =
      (0, (sample_world [])
        \<lparr>out := ''mini-bash $Command executed successfully. Return code: 0\<newline>mini-bash $\<newline>'',
          calls := [Access ''/home/u/ls'', Access ''/bin/ls'', Spawn ''/bin/ls'' [''ls'']]\<rparr>)"
    by (simp add: main_eq sample_world_def)
  let ?v = "sample_world (map Byte ''ls'' @ [ReadError])"
  let ?v1 = "?v\<lparr>out := out ?v @ ''mini-bash $''\<rparr>"
  have rle: "read_line sample_os ?lb ?v1 = (None, ?lb', ?v1\<lparr>stdin := []\<rparr>)"
    by (simp add: read_line_def sample_os_def INITIAL_BUF_def sample_world_def)
  have "main_loop sample_os ?lb ?v = (?v1\<lparr>stdin := []\<rparr>)\<lparr>out := out (?v1\<lparr>stdin := []\<rparr>) @ ''\<newline>''\<rparr>"
    using sample_prompt rle by (rule main_loop_read_fails)
  then have er: "main sample_os ?v = (0, (sample_world [])\<lparr>out := ''mini-bash $\<newline>''\<rparr>)"
    by (simp add: main_eq sample_world_def)
  from eof er show ?thesis
    by (simp only: simp_thms)
qed

end
